theory Spec2Isabelle
  imports Main
begin

section \<open>Provider data, configuration and persisted rows\<close>

text \<open>
  The service under study is \<^verbatim>\<open>DevconnectPretixSyncService\<close>. Its inputs are the responses
  of the Pretix API and the organizer configuration; its outputs are rows of three tables.
  JavaScript numbers that carry identifiers are integers and are modelled as \<open>int\<close>;
  values that may be \<^verbatim>\<open>null\<close> or \<^verbatim>\<open>undefined\<close> are options. Surrogate row identifiers of the
  store are opaque and are modelled as \<open>nat\<close>.
\<close>

record I18nMap =
  en :: string

record DevconnectPretixEventSettings =
  attendee_emails_asked :: bool
  attendee_emails_required :: bool

record DevconnectPretixItem =
  i_id :: int
  i_name :: I18nMap
  admission :: bool
  personalized :: bool
  generate_tickets :: "bool option"

record DevconnectPretixEvent =
  slug :: string
  e_name :: I18nMap

record DevconnectPretixPosition =
  p_id :: int
  positionid :: int
  item :: int
  attendee_name :: "string option"
  attendee_email :: "string option"
  p_secret :: string

record DevconnectPretixOrder =
  code :: string
  status :: string
  o_email :: string
  positions :: "DevconnectPretixPosition list"

record DevconnectPretixEventConfig =
  ec_id :: string
  eventID :: string
  activeItemIDs :: "string list"

record DevconnectPretixOrganizerConfig =
  org_id :: string
  orgURL :: string
  token :: string
  events :: "DevconnectPretixEventConfig list"

record DevconnectPretixConfig =
  organizers :: "DevconnectPretixOrganizerConfig list"

record PretixEventInfo =
  ei_id :: nat
  pretix_events_config_id :: string
  event_name :: string
  ei_is_deleted :: bool

record PretixItemInfo =
  ii_id :: nat
  item_id :: string
  devconnect_pretix_events_info_id :: nat
  item_name :: string
  ii_is_deleted :: bool

record DevconnectPretixTicket =
  email :: string
  full_name :: "string option"
  devconnect_pretix_items_info_id :: nat
  is_deleted :: bool
  is_consumed :: bool
  position_id :: string
  secret :: string

text \<open>Collection of API data for a single event (interface \<^verbatim>\<open>EventData\<close>).\<close>

record EventData =
  settings :: DevconnectPretixEventSettings
  eventInfo :: DevconnectPretixEvent
  items :: "DevconnectPretixItem list"
  tickets :: "DevconnectPretixOrder list"

section \<open>Strings and keyed collections of the host language\<close>

text \<open>\<^verbatim>\<open>Number.prototype.toString\<close> on an integer: its decimal numeral, with a sign.\<close>

definition digit_char :: "nat \<Rightarrow> char" where
  "digit_char n = ''0123456789'' ! n"

fun digits :: "nat \<Rightarrow> string" where
  "digits n = (if n < 10 then [digit_char n] else digits (n div 10) @ [digit_char (n mod 10)])"

declare digits.simps [simp del]

definition toString :: "int \<Rightarrow> string" where
  "toString i = (if i < 0 then CHR ''-'' # digits (nat (- i)) else digits (nat i))"

text \<open>
  \<^verbatim>\<open>String.prototype.toLowerCase\<close>, on the ASCII letters; every other character is kept
  (the model's characters are bytes).
\<close>

definition lower_char :: "char \<Rightarrow> char" where
  "lower_char c =
     (case map_of (zip ''ABCDEFGHIJKLMNOPQRSTUVWXYZ'' ''abcdefghijklmnopqrstuvwxyz'') c of
        None \<Rightarrow> c
      | Some l \<Rightarrow> l)"

definition toLowerCase :: "string \<Rightarrow> string" where
  "toLowerCase s = map lower_char s"

text \<open>
  \<^verbatim>\<open>new Map(entries)\<close>: a later entry with the same key replaces an earlier one.
\<close>

definition newMap :: "('k \<times> 'v) list \<Rightarrow> ('k \<rightharpoonup> 'v)" where
  "newMap entries = map_of (rev entries)"

text \<open>
  Modelled from the spec: \<^verbatim>\<open>getI18nString\<close> of \<^verbatim>\<open>devconnectPretixAPI\<close> is not part of the
  sources at hand. It yields the display name held by a localized name; the English entry,
  which the service itself reads as \<^verbatim>\<open>name.en\<close>, stands for it.
\<close>

definition getI18nString :: "I18nMap \<Rightarrow> string" where
  "getI18nString n = en n"

section \<open>Errors and observable effects\<close>

datatype setting_error = AskAndRequireInput

datatype item_error = NotAdmission | NotPersonalized | GenerateTicketsForced

text \<open>
  One entry of the list returned by \<^verbatim>\<open>checkEventData\<close>: the message about the event
  settings (event name, slug, reasons) or about one product (product name, product id,
  event name, reasons).
\<close>

datatype violation =
    InvalidEventSettings string string "setting_error list"
  | InvalidProduct string int string "item_error list"

datatype error =
    ApiError string
  | StoreError string
  | ConfigNotLoaded
  | OrganizerDataInvalid string "violation list"
  | EventInfoNotFound string
  | ActiveItemsMissing "string list" "string list"
  | ReloadError string
  | TypeError string

datatype write_op =
    InsertEventInfo string string
  | UpdateEventInfo nat string bool
  | InsertItemInfo string nat string
  | UpdateItemInfo nat string bool
  | SoftDeleteItemInfo nat
  | InsertTicket DevconnectPretixTicket
  | UpdateTicket DevconnectPretixTicket
  | SoftDeleteTicket DevconnectPretixTicket

text \<open>
  What a run leaves behind besides the store: each successful store write, each error
  handed to the error sinks in a \<^verbatim>\<open>catch\<close> block (logger, span, Rollbar), and the
  log line about a position without attendee email (order code, position number,
  order email).
\<close>

datatype effect =
    Write write_op
  | Report error
  | LogNoAttendeeEmail string int string

fun is_write :: "effect \<Rightarrow> bool" where
  "is_write (Write w) = True"
| "is_write _ = False"

fun is_report :: "effect \<Rightarrow> bool" where
  "is_report (Report e) = True"
| "is_report _ = False"

section \<open>Validation of fetched data\<close>

definition validateEventSettings :: "DevconnectPretixEventSettings \<Rightarrow> setting_error list" where
  "validateEventSettings s =
     (if attendee_emails_asked s \<noteq> True \<or> attendee_emails_required s \<noteq> True
      then [AskAndRequireInput] else [])"

definition validateEventItem :: "DevconnectPretixItem \<Rightarrow> item_error list" where
  "validateEventItem it =
     (if admission it \<noteq> True then [NotAdmission] else []) @
     (if personalized it \<noteq> True then [NotPersonalized] else []) @
     (if \<not> (generate_tickets it = None) \<and> generate_tickets it \<noteq> Some False
      then [GenerateTicketsForced] else [])"

text \<open>The loop of \<^verbatim>\<open>checkEventData\<close> over the fetched items.\<close>

primrec checkItems :: "DevconnectPretixEvent \<Rightarrow> string list \<Rightarrow> DevconnectPretixItem list \<Rightarrow> violation list" where
  "checkItems ev active [] = []"
| "checkItems ev active (it # its) =
     (if toString (i_id it) \<in> set active
      then (let itemErrors = validateEventItem it in
            if length itemErrors > 0
            then [InvalidProduct (en (i_name it)) (i_id it) (en (e_name ev)) itemErrors]
            else [])
      else []) @ checkItems ev active its"

definition checkEventData :: "EventData \<Rightarrow> DevconnectPretixEventConfig \<Rightarrow> violation list" where
  "checkEventData eventData eventConfig =
     (let eventSettingErrors = validateEventSettings (settings eventData) in
      (if length eventSettingErrors > 0
       then [InvalidEventSettings (en (e_name (eventInfo eventData))) (slug (eventInfo eventData))
               eventSettingErrors]
       else []) @
      checkItems (eventInfo eventData) (activeItemIDs eventConfig) (items eventData))"

section \<open>Orders to tickets\<close>

text \<open>
  The ticket that \<^verbatim>\<open>ordersToDevconnectTickets\<close> pushes for one position whose item is known:
  \<^verbatim>\<open>(attendee_email || order.email).toLowerCase()\<close> takes the purchaser's email when the
  attendee email is \<^verbatim>\<open>null\<close>, \<^verbatim>\<open>undefined\<close> or the empty string.
\<close>

definition falsy :: "string option \<Rightarrow> bool" where
  "falsy s = (case s of None \<Rightarrow> True | Some t \<Rightarrow> t = [])"

definition orElse :: "string option \<Rightarrow> string \<Rightarrow> string" where
  "orElse s d = (case s of None \<Rightarrow> d | Some t \<Rightarrow> if t = [] then d else t)"

definition positionTicket :: "DevconnectPretixOrder \<Rightarrow> DevconnectPretixPosition \<Rightarrow> PretixItemInfo \<Rightarrow> DevconnectPretixTicket" where
  "positionTicket ord p existingItem =
     \<lparr> email = toLowerCase (orElse (attendee_email p) (o_email ord)),
       full_name = attendee_name p,
       devconnect_pretix_items_info_id = ii_id existingItem,
       is_deleted = False,
       is_consumed = False,
       position_id = toString (p_id p),
       secret = p_secret p \<rparr>"

text \<open>The inner loop, over the positions of one paid order: log lines and tickets, in order.\<close>

primrec positionsToTickets :: "(string \<rightharpoonup> PretixItemInfo) \<Rightarrow> DevconnectPretixOrder \<Rightarrow> DevconnectPretixPosition list \<Rightarrow> effect list \<times> DevconnectPretixTicket list" where
  "positionsToTickets itemsInfoByItemID ord [] = ([], [])"
| "positionsToTickets itemsInfoByItemID ord (p # ps) =
     (let rest = positionsToTickets itemsInfoByItemID ord ps in
      case itemsInfoByItemID (toString (item p)) of
        None \<Rightarrow> rest
      | Some existingItem \<Rightarrow>
          ((if falsy (attendee_email p)
            then [LogNoAttendeeEmail (code ord) (positionid p) (o_email ord)] else []) @ fst rest,
           positionTicket ord p existingItem # snd rest))"

text \<open>The outer loop, over the orders: an order that is not paid (\<^verbatim>\<open>"p"\<close>) is skipped.\<close>

primrec ordersLoop :: "(string \<rightharpoonup> PretixItemInfo) \<Rightarrow> DevconnectPretixOrder list \<Rightarrow> effect list \<times> DevconnectPretixTicket list" where
  "ordersLoop itemsInfoByItemID [] = ([], [])"
| "ordersLoop itemsInfoByItemID (ord # ords) =
     (let rest = ordersLoop itemsInfoByItemID ords in
      if status ord \<noteq> ''p'' then rest
      else (let here = positionsToTickets itemsInfoByItemID ord (positions ord) in
            (fst here @ fst rest, snd here @ snd rest)))"

definition ordersToDevconnectTickets :: "DevconnectPretixOrder list \<Rightarrow> PretixItemInfo list \<Rightarrow> effect list \<times> DevconnectPretixTicket list" where
  "ordersToDevconnectTickets orders itemsInfo =
     ordersLoop (newMap (map (\<lambda>i. (item_id i, i)) itemsInfo)) orders"

section \<open>Asynchronous computations\<close>

text \<open>
  An \<^verbatim>\<open>async\<close> function over the database: it either resolves (\<open>Inr\<close>) or rejects
  (\<open>Inl\<close>), it leaves a trace of effects, and the store it has changed so far stays changed
  when it rejects. Tasks that the service starts together are run one after the other, in
  the order in which they were started.
\<close>

type_synonym ('a, 'db) io = "'db \<Rightarrow> (error + 'a) \<times> effect list \<times> 'db"

definition returnT :: "'a \<Rightarrow> ('a, 'db) io" where
  "returnT x = (\<lambda>s. (Inr x, [], s))"

definition throwT :: "error \<Rightarrow> ('a, 'db) io" where
  "throwT e = (\<lambda>s. (Inl e, [], s))"

definition bindT :: "('a, 'db) io \<Rightarrow> ('a \<Rightarrow> ('b, 'db) io) \<Rightarrow> ('b, 'db) io" where
  "bindT m f = (\<lambda>s. case m s of
      (Inl e, tr, s') \<Rightarrow> (Inl e, tr, s')
    | (Inr x, tr, s') \<Rightarrow> (case f x s' of (r, tr', s'') \<Rightarrow> (r, tr @ tr', s'')))"

definition catchT :: "('a, 'db) io \<Rightarrow> (error \<Rightarrow> ('a, 'db) io) \<Rightarrow> ('a, 'db) io" where
  "catchT m h = (\<lambda>s. case m s of
      (Inl e, tr, s') \<Rightarrow> (case h e s' of (r, tr', s'') \<Rightarrow> (r, tr @ tr', s''))
    | (Inr x, tr, s') \<Rightarrow> (Inr x, tr, s'))"

definition emit :: "effect list \<Rightarrow> (unit, 'db) io" where
  "emit effs = (\<lambda>s. (Inr (), effs, s))"

definition storeRead :: "('db \<Rightarrow> error + 'a) \<Rightarrow> ('a, 'db) io" where
  "storeRead q = (\<lambda>s. (q s, [], s))"

definition storeWrite :: "('db \<Rightarrow> error + 'db) \<Rightarrow> write_op \<Rightarrow> (unit, 'db) io" where
  "storeWrite w opn = (\<lambda>s. case w s of
      Inl e \<Rightarrow> (Inl e, [], s)
    | Inr s' \<Rightarrow> (Inr (), [Write opn], s'))"

text \<open>\<^verbatim>\<open>for (const x of xs) { await f(x) }\<close>: the first rejection leaves the loop.\<close>

fun forEach :: "('a \<Rightarrow> (unit, 'db) io) \<Rightarrow> 'a list \<Rightarrow> (unit, 'db) io" where
  "forEach f [] s = (Inr (), [], s)"
| "forEach f (x # xs) s =
     (case f x s of
        (Inl e, tr, s') \<Rightarrow> (Inl e, tr, s')
      | (Inr u, tr, s') \<Rightarrow> (case forEach f xs s' of (r, tr', s'') \<Rightarrow> (r, tr @ tr', s'')))"

text \<open>
  \<^verbatim>\<open>Promise.all\<close> over tasks that were all started: every task runs to its end, and the
  result rejects when one of them did.
\<close>

fun promiseAll :: "('a \<Rightarrow> (unit, 'db) io) \<Rightarrow> 'a list \<Rightarrow> (unit, 'db) io" where
  "promiseAll f [] s = (Inr (), [], s)"
| "promiseAll f (x # xs) s =
     (case f x s of (r, tr, s') \<Rightarrow>
        (case promiseAll f xs s' of (r', tr', s'') \<Rightarrow>
           ((case r of Inl e \<Rightarrow> Inl e | Inr u \<Rightarrow> r'), tr @ tr', s'')))"

text \<open>\<^verbatim>\<open>Promise.allSettled\<close>: every task runs to its end, and the result never rejects.\<close>

fun promiseAllSettled :: "('a \<Rightarrow> (unit, 'db) io) \<Rightarrow> 'a list \<Rightarrow> (unit, 'db) io" where
  "promiseAllSettled f [] s = (Inr (), [], s)"
| "promiseAllSettled f (x # xs) s =
     (case f x s of (r, tr, s') \<Rightarrow>
        (case promiseAllSettled f xs s' of (r', tr', s'') \<Rightarrow> (Inr (), tr @ tr', s'')))"

definition writes_of :: "effect list \<Rightarrow> effect list" where
  "writes_of tr = filter is_write tr"

definition reports_of :: "effect list \<Rightarrow> effect list" where
  "reports_of tr = filter is_report tr"

section \<open>Collaborators: the provider's API and the store\<close>

text \<open>
  \<^verbatim>\<open>IDevconnectPretixAPI\<close>: four calls, each given the organizer's URL, its token and the
  event identifier; each may reject.
\<close>

record pretix_api =
  fetchEventSettings :: "string \<Rightarrow> string \<Rightarrow> string \<Rightarrow> error + DevconnectPretixEventSettings"
  fetchItems :: "string \<Rightarrow> string \<Rightarrow> string \<Rightarrow> error + DevconnectPretixItem list"
  fetchEvent :: "string \<Rightarrow> string \<Rightarrow> string \<Rightarrow> error + DevconnectPretixEvent"
  fetchOrders :: "string \<Rightarrow> string \<Rightarrow> string \<Rightarrow> error + DevconnectPretixOrder list"

text \<open>
  The database queries that the service imports. They are taken as parameters: a database
  of any type \<open>'db\<close>, reads that may fail, writes that may fail and otherwise give the new
  database.
\<close>

record 'db store =
  fetchPretixEventInfo :: "'db \<Rightarrow> string \<Rightarrow> error + PretixEventInfo option"
  insertPretixEventsInfo :: "'db \<Rightarrow> string \<Rightarrow> string \<Rightarrow> error + 'db"
  updatePretixEventsInfo :: "'db \<Rightarrow> nat \<Rightarrow> string \<Rightarrow> bool \<Rightarrow> error + 'db"
  fetchPretixItemsInfoByEvent :: "'db \<Rightarrow> nat \<Rightarrow> error + PretixItemInfo list"
  insertPretixItemsInfo :: "'db \<Rightarrow> string \<Rightarrow> nat \<Rightarrow> string \<Rightarrow> error + 'db"
  updatePretixItemsInfo :: "'db \<Rightarrow> nat \<Rightarrow> string \<Rightarrow> bool \<Rightarrow> error + 'db"
  softDeletePretixItemInfo :: "'db \<Rightarrow> nat \<Rightarrow> error + 'db"
  fetchDevconnectPretixTicketsByEvent :: "'db \<Rightarrow> string \<Rightarrow> error + DevconnectPretixTicket list"
  insertDevconnectPretixTicket :: "'db \<Rightarrow> DevconnectPretixTicket \<Rightarrow> error + 'db"
  updateDevconnectPretixTicket :: "'db \<Rightarrow> DevconnectPretixTicket \<Rightarrow> error + 'db"
  softDeleteDevconnectPretixTicket :: "'db \<Rightarrow> DevconnectPretixTicket \<Rightarrow> error + 'db"

text \<open>
  Modelled from the spec: \<^verbatim>\<open>pretixTicketsDifferent\<close> of \<^verbatim>\<open>util/devconnectTicket\<close> is not part
  of the sources at hand. Two tickets differ when a comparison-relevant field differs:
  email, name, owning item and the other fields that do not depend on redemption; the
  consumed flag is not compared.
\<close>

definition pretixTicketsDifferent :: "DevconnectPretixTicket \<Rightarrow> DevconnectPretixTicket \<Rightarrow> bool" where
  "pretixTicketsDifferent oldTicket newTicket =
     (email oldTicket \<noteq> email newTicket \<or>
      full_name oldTicket \<noteq> full_name newTicket \<or>
      devconnect_pretix_items_info_id oldTicket \<noteq> devconnect_pretix_items_info_id newTicket \<or>
      is_deleted oldTicket \<noteq> is_deleted newTicket \<or>
      secret oldTicket \<noteq> secret newTicket)"

section \<open>The sync of one event\<close>

text \<open>
  The \<^verbatim>\<open>catch\<close> block shared by the three phases: the error goes to the error sinks and
  the phase returns \<^verbatim>\<open>false\<close>.
\<close>

definition reportAndReturnFalse :: "error \<Rightarrow> (bool, 'db) io" where
  "reportAndReturnFalse e = bindT (emit [Report e]) (\<lambda>u. returnT False)"

definition syncEventInfos :: "'db store \<Rightarrow> DevconnectPretixOrganizerConfig \<Rightarrow> DevconnectPretixEventConfig \<Rightarrow> DevconnectPretixEvent \<Rightarrow> (bool, 'db) io" where
  "syncEventInfos S organizer event evInfo =
     catchT
       (let eventNameFromAPI = en (e_name evInfo) in
        bindT (storeRead (\<lambda>d. fetchPretixEventInfo S d (ec_id event))) (\<lambda>existingEvent.
        bindT (case existingEvent of
                 None \<Rightarrow>
                   storeWrite (\<lambda>d. insertPretixEventsInfo S d eventNameFromAPI (ec_id event))
                     (InsertEventInfo eventNameFromAPI (ec_id event))
               | Some ex \<Rightarrow>
                   storeWrite (\<lambda>d. updatePretixEventsInfo S d (ei_id ex) eventNameFromAPI False)
                     (UpdateEventInfo (ei_id ex) eventNameFromAPI False)) (\<lambda>u.
        returnT True)))
       reportAndReturnFalse"

text \<open>\<^verbatim>\<open>Array.from(new Set(xs))\<close>: the elements in the order of their first occurrence.\<close>

definition setToList :: "'a list \<Rightarrow> 'a list" where
  "setToList xs = rev (remdups (rev xs))"

text \<open>The three steps of saving item infos.\<close>

definition insertItemInfos :: "'db store \<Rightarrow> PretixEventInfo \<Rightarrow> DevconnectPretixItem list \<Rightarrow> (unit, 'db) io" where
  "insertItemInfos S evInfo itemsToInsert =
     forEach (\<lambda>it.
        storeWrite
          (\<lambda>d. insertPretixItemsInfo S d (toString (i_id it)) (ei_id evInfo) (getI18nString (i_name it)))
          (InsertItemInfo (toString (i_id it)) (ei_id evInfo) (getI18nString (i_name it))))
       itemsToInsert"

definition updateItemInfos :: "'db store \<Rightarrow> (string \<rightharpoonup> PretixItemInfo) \<Rightarrow> DevconnectPretixItem list \<Rightarrow> (unit, 'db) io" where
  "updateItemInfos S existingItemsInfoByItemID itemsToUpdate =
     forEach (\<lambda>it.
        case existingItemsInfoByItemID (toString (i_id it)) of
          None \<Rightarrow> throwT (TypeError ''oldItem is undefined'')
        | Some oldItem \<Rightarrow>
            storeWrite (\<lambda>d. updatePretixItemsInfo S d (ii_id oldItem) (getI18nString (i_name it)) False)
              (UpdateItemInfo (ii_id oldItem) (getI18nString (i_name it)) False))
       itemsToUpdate"

definition removeItemInfos :: "'db store \<Rightarrow> PretixItemInfo list \<Rightarrow> (unit, 'db) io" where
  "removeItemInfos S itemsToRemove =
     forEach (\<lambda>it.
        storeWrite (\<lambda>d. softDeletePretixItemInfo S d (ii_id it)) (SoftDeleteItemInfo (ii_id it)))
       itemsToRemove"

definition itemsToInsertOf :: "(string \<rightharpoonup> PretixItemInfo) \<Rightarrow> DevconnectPretixItem list \<Rightarrow> DevconnectPretixItem list" where
  "itemsToInsertOf existingItemsInfoByItemID newActiveItems =
     filter (\<lambda>i. existingItemsInfoByItemID (toString (i_id i)) = None) newActiveItems"

definition itemsToUpdateOf :: "(string \<rightharpoonup> PretixItemInfo) \<Rightarrow> DevconnectPretixItem list \<Rightarrow> DevconnectPretixItem list" where
  "itemsToUpdateOf existingItemsInfoByItemID newActiveItems =
     filter (\<lambda>i. case existingItemsInfoByItemID (toString (i_id i)) of
                   None \<Rightarrow> False
                 | Some oldItem \<Rightarrow> item_name oldItem \<noteq> getI18nString (i_name i))
       (filter (\<lambda>i. existingItemsInfoByItemID (toString (i_id i)) \<noteq> None) newActiveItems)"

definition itemsToRemoveOf :: "(string \<rightharpoonup> DevconnectPretixItem) \<Rightarrow> PretixItemInfo list \<Rightarrow> PretixItemInfo list" where
  "itemsToRemoveOf newActiveItemsByItemID existingItemsInfo =
     filter (\<lambda>existing. newActiveItemsByItemID (item_id existing) = None) existingItemsInfo"

definition syncItemInfos :: "'db store \<Rightarrow> DevconnectPretixOrganizerConfig \<Rightarrow> DevconnectPretixEventConfig \<Rightarrow> DevconnectPretixItem list \<Rightarrow> (bool, 'db) io" where
  "syncItemInfos S organizer event itemsFromAPI =
     catchT
       (bindT (storeRead (\<lambda>d. fetchPretixEventInfo S d (ec_id event))) (\<lambda>found.
        case found of
          None \<Rightarrow> throwT (EventInfoNotFound (ec_id event))
        | Some evInfo \<Rightarrow>
            (let newItemIDs = map (\<lambda>i. toString (i_id i)) itemsFromAPI in
             if \<exists>i \<in> set (activeItemIDs event). i \<notin> set newItemIDs
             then throwT (ActiveItemsMissing (activeItemIDs event) (setToList newItemIDs))
             else
               (let newActiveItems =
                      filter (\<lambda>i. toString (i_id i) \<in> set (activeItemIDs event)) itemsFromAPI;
                    newActiveItemsByItemID =
                      newMap (map (\<lambda>i. (toString (i_id i), i)) newActiveItems) in
                bindT (storeRead (\<lambda>d. fetchPretixItemsInfoByEvent S d (ei_id evInfo))) (\<lambda>existingItemsInfo.
                  (let existingItemsInfoByItemID =
                         newMap (map (\<lambda>i. (item_id i, i)) existingItemsInfo) in
                   bindT (insertItemInfos S evInfo
                            (itemsToInsertOf existingItemsInfoByItemID newActiveItems)) (\<lambda>u.
                   bindT (updateItemInfos S existingItemsInfoByItemID
                            (itemsToUpdateOf existingItemsInfoByItemID newActiveItems)) (\<lambda>u.
                   bindT (removeItemInfos S
                            (itemsToRemoveOf newActiveItemsByItemID existingItemsInfo)) (\<lambda>u.
                   returnT True)))))))))
       reportAndReturnFalse"

text \<open>The three steps of saving tickets.\<close>

definition insertTickets :: "'db store \<Rightarrow> DevconnectPretixTicket list \<Rightarrow> (unit, 'db) io" where
  "insertTickets S newTickets =
     forEach (\<lambda>t. storeWrite (\<lambda>d. insertDevconnectPretixTicket S d t) (InsertTicket t)) newTickets"

definition updateTickets :: "'db store \<Rightarrow> DevconnectPretixTicket list \<Rightarrow> (unit, 'db) io" where
  "updateTickets S updatedTickets =
     forEach (\<lambda>t. storeWrite (\<lambda>d. updateDevconnectPretixTicket S d t) (UpdateTicket t)) updatedTickets"

definition removeTickets :: "'db store \<Rightarrow> DevconnectPretixTicket list \<Rightarrow> (unit, 'db) io" where
  "removeTickets S removedTickets =
     forEach (\<lambda>t. storeWrite (\<lambda>d. softDeleteDevconnectPretixTicket S d t) (SoftDeleteTicket t))
       removedTickets"

definition newTicketsOf :: "(string \<rightharpoonup> DevconnectPretixTicket) \<Rightarrow> DevconnectPretixTicket list \<Rightarrow> DevconnectPretixTicket list" where
  "newTicketsOf existingTicketsByPositionId ticketsFromPretix =
     filter (\<lambda>t. existingTicketsByPositionId (position_id t) = None) ticketsFromPretix"

definition updatedTicketsOf :: "(string \<rightharpoonup> DevconnectPretixTicket) \<Rightarrow> DevconnectPretixTicket list \<Rightarrow> DevconnectPretixTicket list" where
  "updatedTicketsOf existingTicketsByPositionId ticketsFromPretix =
     filter (\<lambda>t. case existingTicketsByPositionId (position_id t) of
                   None \<Rightarrow> False
                 | Some oldTicket \<Rightarrow> pretixTicketsDifferent oldTicket t)
       (filter (\<lambda>t. existingTicketsByPositionId (position_id t) \<noteq> None) ticketsFromPretix)"

definition removedTicketsOf :: "(string \<rightharpoonup> DevconnectPretixTicket) \<Rightarrow> DevconnectPretixTicket list \<Rightarrow> DevconnectPretixTicket list" where
  "removedTicketsOf newTicketsByPositionId existingTickets =
     filter (\<lambda>existing. newTicketsByPositionId (position_id existing) = None) existingTickets"

definition syncTickets :: "'db store \<Rightarrow> DevconnectPretixOrganizerConfig \<Rightarrow> DevconnectPretixEventConfig \<Rightarrow> DevconnectPretixOrder list \<Rightarrow> (bool, 'db) io" where
  "syncTickets S organizer event pretixOrders =
     catchT
       (bindT (storeRead (\<lambda>d. fetchPretixEventInfo S d (ec_id event))) (\<lambda>found.
        case found of
          None \<Rightarrow> throwT (EventInfoNotFound (ec_id event))
        | Some evInfo \<Rightarrow>
            bindT (storeRead (\<lambda>d. fetchPretixItemsInfoByEvent S d (ei_id evInfo))) (\<lambda>updatedItemsInfo.
              (let converted = ordersToDevconnectTickets pretixOrders updatedItemsInfo;
                   ticketsFromPretix = snd converted;
                   newTicketsByPositionId =
                     newMap (map (\<lambda>t. (position_id t, t)) ticketsFromPretix) in
               bindT (emit (fst converted)) (\<lambda>u.
               bindT (storeRead (\<lambda>d. fetchDevconnectPretixTicketsByEvent S d (ec_id event))) (\<lambda>existingTickets.
                 (let existingTicketsByPositionId =
                        newMap (map (\<lambda>t. (position_id t, t)) existingTickets) in
                  bindT (insertTickets S
                           (newTicketsOf existingTicketsByPositionId ticketsFromPretix)) (\<lambda>u.
                  bindT (updateTickets S
                           (updatedTicketsOf existingTicketsByPositionId ticketsFromPretix)) (\<lambda>u.
                  bindT (removeTickets S
                           (removedTicketsOf newTicketsByPositionId existingTickets)) (\<lambda>u.
                  returnT True))))))))))
       reportAndReturnFalse"

text \<open>
  \<^verbatim>\<open>syncEvent\<close>: the phases in order; a phase that returns \<^verbatim>\<open>false\<close> ends the event's sync,
  and an error thrown on the way is reported and swallowed.
\<close>

definition syncEvent :: "'db store \<Rightarrow> DevconnectPretixOrganizerConfig \<Rightarrow> DevconnectPretixEventConfig \<Rightarrow> EventData \<Rightarrow> (unit, 'db) io" where
  "syncEvent S organizer event eventData =
     catchT
       (bindT (syncEventInfos S organizer event (eventInfo eventData)) (\<lambda>ok1.
        if \<not> ok1 then returnT ()
        else bindT (syncItemInfos S organizer event (items eventData)) (\<lambda>ok2.
        if \<not> ok2 then returnT ()
        else bindT (syncTickets S organizer event (tickets eventData)) (\<lambda>ok3.
        returnT ()))))
       (\<lambda>e. emit [Report e])"

section \<open>The sync of one organizer and of all organizers\<close>

definition fetchEventData :: "pretix_api \<Rightarrow> DevconnectPretixOrganizerConfig \<Rightarrow> DevconnectPretixEventConfig \<Rightarrow> error + EventData" where
  "fetchEventData api organizer event =
     (case fetchEventSettings api (orgURL organizer) (token organizer) (eventID event) of
        Inl e \<Rightarrow> Inl e
      | Inr fetchedSettings \<Rightarrow>
     (case fetchItems api (orgURL organizer) (token organizer) (eventID event) of
        Inl e \<Rightarrow> Inl e
      | Inr fetchedItems \<Rightarrow>
     (case fetchEvent api (orgURL organizer) (token organizer) (eventID event) of
        Inl e \<Rightarrow> Inl e
      | Inr fetchedEvent \<Rightarrow>
     (case fetchOrders api (orgURL organizer) (token organizer) (eventID event) of
        Inl e \<Rightarrow> Inl e
      | Inr fetchedOrders \<Rightarrow>
          Inr \<lparr> settings = fetchedSettings, eventInfo = fetchedEvent,
                items = fetchedItems, tickets = fetchedOrders \<rparr>))))"

text \<open>
  \<^verbatim>\<open>await Promise.all(eventDataPromises)\<close>: the data of every event, or the rejection of a
  fetch (of the first event in the list whose fetch rejects).
\<close>

primrec fetchAllEventData :: "pretix_api \<Rightarrow> DevconnectPretixOrganizerConfig \<Rightarrow> DevconnectPretixEventConfig list \<Rightarrow> error + (DevconnectPretixEventConfig \<times> EventData) list" where
  "fetchAllEventData api organizer [] = Inr []"
| "fetchAllEventData api organizer (event # others) =
     (case fetchEventData api organizer event of
        Inl e \<Rightarrow> Inl e
      | Inr data \<Rightarrow>
          (case fetchAllEventData api organizer others of
             Inl e \<Rightarrow> Inl e
           | Inr rest \<Rightarrow> Inr ((event, data) # rest)))"

definition checkAllEventData :: "(DevconnectPretixEventConfig \<times> EventData) list \<Rightarrow> violation list" where
  "checkAllEventData allEventData =
     concat (map (\<lambda>(event, data). checkEventData data event) allEventData)"

definition syncOrganizer :: "'db store \<Rightarrow> pretix_api \<Rightarrow> DevconnectPretixOrganizerConfig \<Rightarrow> (unit, 'db) io" where
  "syncOrganizer S api organizer =
     catchT
       (case fetchAllEventData api organizer (events organizer) of
          Inl e \<Rightarrow> throwT e
        | Inr allEventData \<Rightarrow>
            (let errors = checkAllEventData allEventData in
             if length errors > 0
             then throwT (OrganizerDataInvalid (org_id organizer) errors)
             else promiseAllSettled (\<lambda>(event, data). syncEvent S organizer event data) allEventData))
       (\<lambda>e. emit [Report e])"

definition sync :: "'db store \<Rightarrow> pretix_api \<Rightarrow> DevconnectPretixConfig \<Rightarrow> (unit, 'db) io" where
  "sync S api pretixConfig =
     catchT (promiseAll (syncOrganizer S api) (organizers pretixConfig)) (\<lambda>e. emit [Report e])"

section \<open>The service: readiness flag and sync loop\<close>

text \<open>
  The fields of \<^verbatim>\<open>DevconnectPretixSyncService\<close> that change, the database behind its pool,
  the timers of the runtime that are pending, and the number of passes that were started
  and have not ended yet. A pass is started without being awaited, and the handle of the
  next timer is assigned only in the continuation that runs when the pass has ended; the
  effects of the pass on the database and on the readiness flag are taken at that moment.
\<close>

record 'db service =
  pretixAPI :: pretix_api
  database :: 'db
  timeout :: "nat option"
  hasCompletedSyncSinceStarting :: bool
  pendingTimers :: "nat list"
  nextTimerId :: nat
  passesInFlight :: nat

text \<open>
  The other collaborators of a pass: the loading of the configuration, which may reject
  or give \<^verbatim>\<open>null\<close>, and the reload of the group memberships, which may reject.
\<close>

record 'db collaborators =
  theStore :: "'db store"
  getDevconnectPretixConfig :: "'db \<Rightarrow> error + DevconnectPretixConfig option"
  semaphoreReload :: "'db \<Rightarrow> error + unit"

definition newService :: "pretix_api \<Rightarrow> 'db \<Rightarrow> 'db service" where
  "newService api d =
     \<lparr> pretixAPI = api, database = d, timeout = None,
       hasCompletedSyncSinceStarting = False, pendingTimers = [], nextTimerId = 0,
       passesInFlight = 0 \<rparr>"

text \<open>The \<^verbatim>\<open>try\<close> block of \<^verbatim>\<open>trySync\<close>, up to the assignment of the flag.\<close>

definition trySyncBody :: "'db collaborators \<Rightarrow> pretix_api \<Rightarrow> (unit, 'db) io" where
  "trySyncBody C api =
     bindT (storeRead (getDevconnectPretixConfig C)) (\<lambda>devconnectPretixConfig.
     case devconnectPretixConfig of
       None \<Rightarrow> throwT ConfigNotLoaded
     | Some cfg \<Rightarrow>
         bindT (sync (theStore C) api cfg) (\<lambda>u.
         storeRead (semaphoreReload C)))"

definition trySync :: "'db collaborators \<Rightarrow> 'db service \<Rightarrow> effect list \<times> 'db service" where
  "trySync C sv =
     (case trySyncBody C (pretixAPI sv) (database sv) of
        (Inr u, tr, d) \<Rightarrow> (tr, sv\<lparr>database := d, hasCompletedSyncSinceStarting := True\<rparr>)
      | (Inl e, tr, d) \<Rightarrow> (tr @ [Report e], sv\<lparr>database := d\<rparr>))"


definition clearTimeout :: "nat \<Rightarrow> 'db service \<Rightarrow> 'db service" where
  "clearTimeout h sv = sv\<lparr>pendingTimers := removeAll h (pendingTimers sv)\<rparr>"

text \<open>
  The inner function \<^verbatim>\<open>trySync\<close> of \<^verbatim>\<open>startSyncLoop\<close> is called and not awaited: when the
  call returns, a pass is in flight and nothing else has changed.
\<close>

definition beginPass :: "'db service \<Rightarrow> 'db service" where
  "beginPass sv = sv\<lparr>passesInFlight := Suc (passesInFlight sv)\<rparr>"



text \<open>A pending timer expires: its callback starts the next pass.\<close>

definition timerFires :: "nat \<Rightarrow> 'db service \<Rightarrow> 'db service" where
  "timerFires h sv =
     (if h \<in> set (pendingTimers sv) then beginPass (clearTimeout h sv) else sv)"




section \<open>A store as the specification describes it\<close>

record pretix_db =
  event_infos :: "PretixEventInfo list"
  item_infos :: "PretixItemInfo list"
  ticket_rows :: "DevconnectPretixTicket list"

definition freshId :: "nat list \<Rightarrow> nat" where
  "freshId ids = Suc (fold max ids 0)"

text \<open>
  The two shapes of a write on a table: rewrite the rows that match in place, and the
  upsert, which rewrites the matching rows when there are any and appends a row otherwise.
\<close>

definition modifyWhere :: "('r \<Rightarrow> bool) \<Rightarrow> ('r \<Rightarrow> 'r) \<Rightarrow> 'r list \<Rightarrow> 'r list" where
  "modifyWhere matches change rows = map (\<lambda>r. if matches r then change r else r) rows"

definition upsertWhere :: "('r \<Rightarrow> bool) \<Rightarrow> ('r \<Rightarrow> 'r) \<Rightarrow> 'r \<Rightarrow> 'r list \<Rightarrow> 'r list" where
  "upsertWhere matches change new rows =
     (if \<exists>r \<in> set rows. matches r then modifyWhere matches change rows else rows @ [new])"

text \<open>
  Modelled from the spec: the queries on event infos (\<^verbatim>\<open>database/queries/pretixEventInfo\<close>)
  are not part of the sources at hand. An event info is fetched by the identity of its
  event config; an insert is an upsert by that key; an update rewrites the row with the
  given identifier in place; rows are never removed.
\<close>

definition spec_fetchPretixEventInfo :: "pretix_db \<Rightarrow> string \<Rightarrow> error + PretixEventInfo option" where
  "spec_fetchPretixEventInfo d eventConfigID =
     Inr (find (\<lambda>e. pretix_events_config_id e = eventConfigID) (event_infos d))"

definition spec_insertPretixEventsInfo :: "pretix_db \<Rightarrow> string \<Rightarrow> string \<Rightarrow> error + pretix_db" where
  "spec_insertPretixEventsInfo d name eventConfigID =
     Inr (d\<lparr>event_infos :=
       upsertWhere (\<lambda>e. pretix_events_config_id e = eventConfigID)
         (\<lambda>e. e\<lparr>event_name := name\<rparr>)
         \<lparr> ei_id = freshId (map ei_id (event_infos d)),
           pretix_events_config_id = eventConfigID,
           event_name = name, ei_is_deleted = False \<rparr>
         (event_infos d)\<rparr>)"

definition spec_updatePretixEventsInfo :: "pretix_db \<Rightarrow> nat \<Rightarrow> string \<Rightarrow> bool \<Rightarrow> error + pretix_db" where
  "spec_updatePretixEventsInfo d rowId name deleted =
     Inr (d\<lparr>event_infos :=
       modifyWhere (\<lambda>e. ei_id e = rowId)
         (\<lambda>e. e\<lparr>event_name := name, ei_is_deleted := deleted\<rparr>) (event_infos d)\<rparr>)"

text \<open>
  Modelled from the spec: the queries on item infos (\<^verbatim>\<open>database/queries/pretixItemInfo\<close>)
  are not part of the sources at hand. The natural key of an item info is (event, provider
  item id). The fetch by event gives the active rows of the event; an insert is an upsert by
  the natural key, and the reappearance of a soft-deleted key makes its row active again
  with the new name; update and soft-delete address the row by its identifier; a soft-delete
  marks the row and never removes it.
\<close>

definition spec_fetchPretixItemsInfoByEvent :: "pretix_db \<Rightarrow> nat \<Rightarrow> error + PretixItemInfo list" where
  "spec_fetchPretixItemsInfoByEvent d eventInfoId =
     Inr (filter (\<lambda>i. devconnect_pretix_events_info_id i = eventInfoId \<and> \<not> ii_is_deleted i)
            (item_infos d))"

definition spec_insertPretixItemsInfo :: "pretix_db \<Rightarrow> string \<Rightarrow> nat \<Rightarrow> string \<Rightarrow> error + pretix_db" where
  "spec_insertPretixItemsInfo d itemId eventInfoId name =
     Inr (d\<lparr>item_infos :=
       upsertWhere (\<lambda>i. item_id i = itemId \<and> devconnect_pretix_events_info_id i = eventInfoId)
         (\<lambda>i. i\<lparr>item_name := name, ii_is_deleted := False\<rparr>)
         \<lparr> ii_id = freshId (map ii_id (item_infos d)), item_id = itemId,
           devconnect_pretix_events_info_id = eventInfoId,
           item_name = name, ii_is_deleted = False \<rparr>
         (item_infos d)\<rparr>)"

definition spec_updatePretixItemsInfo :: "pretix_db \<Rightarrow> nat \<Rightarrow> string \<Rightarrow> bool \<Rightarrow> error + pretix_db" where
  "spec_updatePretixItemsInfo d rowId name deleted =
     Inr (d\<lparr>item_infos :=
       modifyWhere (\<lambda>i. ii_id i = rowId)
         (\<lambda>i. i\<lparr>item_name := name, ii_is_deleted := deleted\<rparr>) (item_infos d)\<rparr>)"

definition spec_softDeletePretixItemInfo :: "pretix_db \<Rightarrow> nat \<Rightarrow> error + pretix_db" where
  "spec_softDeletePretixItemInfo d rowId =
     Inr (d\<lparr>item_infos :=
       modifyWhere (\<lambda>i. ii_id i = rowId) (\<lambda>i. i\<lparr>ii_is_deleted := True\<rparr>) (item_infos d)\<rparr>)"

text \<open>
  Modelled from the spec: the queries on tickets (\<^verbatim>\<open>database/queries/devconnect_pretix_tickets\<close>)
  are not part of the sources at hand. The natural key of a ticket is the provider's
  position id. The fetch by event gives the active tickets whose owning item info belongs
  to the event info of the event config. A write refreshes email, name, owning item,
  soft-delete flag and secret of the rows with the ticket's position id; the consumed flag
  belongs to the redemption logic and no query of the sync writes it, except that a row
  which did not exist is created with the flag of the inserted ticket. An insert is an
  upsert by position id; a soft-delete marks the row and never removes it.
\<close>

definition ticketOfEvent :: "pretix_db \<Rightarrow> string \<Rightarrow> DevconnectPretixTicket \<Rightarrow> bool" where
  "ticketOfEvent d eventConfigID t =
     (\<exists>i \<in> set (item_infos d).
        ii_id i = devconnect_pretix_items_info_id t \<and>
        (\<exists>e \<in> set (event_infos d).
           ei_id e = devconnect_pretix_events_info_id i \<and>
           pretix_events_config_id e = eventConfigID))"

definition refreshTicket :: "DevconnectPretixTicket \<Rightarrow> DevconnectPretixTicket \<Rightarrow> DevconnectPretixTicket" where
  "refreshTicket t r =
     r\<lparr>email := email t, full_name := full_name t,
       devconnect_pretix_items_info_id := devconnect_pretix_items_info_id t,
       is_deleted := is_deleted t, secret := secret t\<rparr>"

definition spec_fetchDevconnectPretixTicketsByEvent :: "pretix_db \<Rightarrow> string \<Rightarrow> error + DevconnectPretixTicket list" where
  "spec_fetchDevconnectPretixTicketsByEvent d eventConfigID =
     Inr (filter (\<lambda>t. \<not> is_deleted t \<and> ticketOfEvent d eventConfigID t) (ticket_rows d))"

definition spec_insertDevconnectPretixTicket :: "pretix_db \<Rightarrow> DevconnectPretixTicket \<Rightarrow> error + pretix_db" where
  "spec_insertDevconnectPretixTicket d t =
     Inr (d\<lparr>ticket_rows :=
       upsertWhere (\<lambda>r. position_id r = position_id t) (refreshTicket t) t (ticket_rows d)\<rparr>)"

definition spec_updateDevconnectPretixTicket :: "pretix_db \<Rightarrow> DevconnectPretixTicket \<Rightarrow> error + pretix_db" where
  "spec_updateDevconnectPretixTicket d t =
     Inr (d\<lparr>ticket_rows :=
       modifyWhere (\<lambda>r. position_id r = position_id t) (refreshTicket t) (ticket_rows d)\<rparr>)"

definition spec_softDeleteDevconnectPretixTicket :: "pretix_db \<Rightarrow> DevconnectPretixTicket \<Rightarrow> error + pretix_db" where
  "spec_softDeleteDevconnectPretixTicket d t =
     Inr (d\<lparr>ticket_rows :=
       modifyWhere (\<lambda>r. position_id r = position_id t) (\<lambda>r. r\<lparr>is_deleted := True\<rparr>)
         (ticket_rows d)\<rparr>)"

definition specStore :: "pretix_db store" where
  "specStore =
     \<lparr> fetchPretixEventInfo = spec_fetchPretixEventInfo,
       insertPretixEventsInfo = spec_insertPretixEventsInfo,
       updatePretixEventsInfo = spec_updatePretixEventsInfo,
       fetchPretixItemsInfoByEvent = spec_fetchPretixItemsInfoByEvent,
       insertPretixItemsInfo = spec_insertPretixItemsInfo,
       updatePretixItemsInfo = spec_updatePretixItemsInfo,
       softDeletePretixItemInfo = spec_softDeletePretixItemInfo,
       fetchDevconnectPretixTicketsByEvent = spec_fetchDevconnectPretixTicketsByEvent,
       insertDevconnectPretixTicket = spec_insertDevconnectPretixTicket,
       updateDevconnectPretixTicket = spec_updateDevconnectPretixTicket,
       softDeleteDevconnectPretixTicket = spec_softDeleteDevconnectPretixTicket \<rparr>"

text \<open>
  A pass reaches the assignment of the readiness flag when the configuration loads, is
  not \<^verbatim>\<open>null\<close>, and the reload after \<^verbatim>\<open>sync\<close> does not reject.
\<close>

definition passCompletes :: "'db collaborators \<Rightarrow> 'db service \<Rightarrow> bool" where
  "passCompletes C sv =
     (case getDevconnectPretixConfig C (database sv) of
        Inl e \<Rightarrow> False
      | Inr None \<Rightarrow> False
      | Inr (Some cfg) \<Rightarrow>
          (case semaphoreReload C (snd (snd (sync (theStore C) (pretixAPI sv) cfg (database sv)))) of
             Inl e \<Rightarrow> False
           | Inr u \<Rightarrow> True))"

text \<open>
  Passes one after the other, each with the collaborators as they answer at its time.
\<close>

primrec passes :: "'db collaborators list \<Rightarrow> 'db service \<Rightarrow> 'db service" where
  "passes [] sv = sv"
| "passes (C # Cs) sv = passes Cs (snd (trySync C sv))"

section \<open>Views of the store used in the statements\<close>

text \<open>
  The consumed flags of the stored tickets, row by row, with the position ids; a store
  keeps them with respect to an earlier one when its rows start with the same position
  ids and flags and every further row is not consumed; a computation preserves them when
  every run of it ends in a store that keeps them.
\<close>

definition consumedFlags :: "pretix_db \<Rightarrow> (string \<times> bool) list" where
  "consumedFlags d = map (\<lambda>t. (position_id t, is_consumed t)) (ticket_rows d)"

definition keepsConsumed :: "pretix_db \<Rightarrow> pretix_db \<Rightarrow> bool" where
  "keepsConsumed d d' = (\<exists>new. consumedFlags d' = consumedFlags d @ map (\<lambda>p. (p, False)) new)"

definition preservesConsumed :: "('a, pretix_db) io \<Rightarrow> bool" where
  "preservesConsumed m = (\<forall>s. keepsConsumed s (snd (snd (m s))))"

text \<open>
  An event info is settled for an event config and a name when it is the row found for the
  config and writing the name (and clearing the soft-delete flag) on the rows with its id
  changes nothing.
\<close>

definition eventInfoSettled :: "string \<Rightarrow> string \<Rightarrow> PretixEventInfo list \<Rightarrow> PretixEventInfo \<Rightarrow> bool" where
  "eventInfoSettled cfg name rows r =
     (find (\<lambda>x. pretix_events_config_id x = cfg) rows = Some r \<and>
      modifyWhere (\<lambda>x. ei_id x = ei_id r) (\<lambda>x. x\<lparr>event_name := name, ei_is_deleted := False\<rparr>) rows = rows)"

text \<open>
  The tables of item infos and of tickets after the three steps (insert, update,
  soft-delete) of a phase, from the table before: \<open>e\<close> is the id of the event info and \<open>A\<close>
  the active items fetched; \<open>B\<close> tells the tickets of the event and \<open>T\<close> are the tickets
  converted from the orders.
\<close>

definition itemTableAfter :: "nat \<Rightarrow> DevconnectPretixItem list \<Rightarrow> PretixItemInfo list \<Rightarrow> PretixItemInfo list" where
  "itemTableAfter e A R0 =
     (let E = filter (\<lambda>i. devconnect_pretix_events_info_id i = e \<and> \<not> ii_is_deleted i) R0;
          Emap = newMap (map (\<lambda>i. (item_id i, i)) E)
      in fold (\<lambda>x. modifyWhere (\<lambda>i. ii_id i = ii_id x) (\<lambda>i. i\<lparr>ii_is_deleted := True\<rparr>))
           (itemsToRemoveOf (newMap (map (\<lambda>i. (toString (i_id i), i)) A)) E)
           (fold (\<lambda>a. modifyWhere
                    (\<lambda>i. case Emap (toString (i_id a)) of None \<Rightarrow> False | Some old \<Rightarrow> ii_id i = ii_id old)
                    (\<lambda>i. i\<lparr>item_name := getI18nString (i_name a), ii_is_deleted := False\<rparr>))
              (itemsToUpdateOf Emap A)
              (fold (\<lambda>a rows.
                  upsertWhere (\<lambda>i. item_id i = toString (i_id a) \<and> devconnect_pretix_events_info_id i = e)
                    (\<lambda>i. i\<lparr>item_name := getI18nString (i_name a), ii_is_deleted := False\<rparr>)
                    \<lparr> ii_id = freshId (map ii_id rows), item_id = toString (i_id a),
                      devconnect_pretix_events_info_id = e, item_name = getI18nString (i_name a),
                      ii_is_deleted = False \<rparr>
                    rows)
                 (itemsToInsertOf Emap A) R0)))"

definition ticketTableAfter :: "(DevconnectPretixTicket \<Rightarrow> bool) \<Rightarrow> DevconnectPretixTicket list \<Rightarrow> DevconnectPretixTicket list \<Rightarrow> DevconnectPretixTicket list" where
  "ticketTableAfter B T K0 =
     (let E = filter (\<lambda>t. \<not> is_deleted t \<and> B t) K0;
          Emap = newMap (map (\<lambda>t. (position_id t, t)) E)
      in fold (\<lambda>t. modifyWhere (\<lambda>r. position_id r = position_id t) (\<lambda>r. r\<lparr>is_deleted := True\<rparr>))
           (removedTicketsOf (newMap (map (\<lambda>t. (position_id t, t)) T)) E)
           (fold (\<lambda>t. modifyWhere (\<lambda>r. position_id r = position_id t) (refreshTicket t))
              (updatedTicketsOf Emap T)
              (fold (\<lambda>t. upsertWhere (\<lambda>r. position_id r = position_id t) (refreshTicket t) t)
                 (newTicketsOf Emap T) K0)))"

section \<open>Sample provider data and configurations\<close>

definition ex_settings :: DevconnectPretixEventSettings where
  "ex_settings = \<lparr> attendee_emails_asked = True, attendee_emails_required = True \<rparr>"

definition ex_item7 :: DevconnectPretixItem where
  "ex_item7 = \<lparr> i_id = 7, i_name = \<lparr> en = ''General'' \<rparr>, admission = True,
                 personalized = True, generate_tickets = None \<rparr>"

definition ex_item8 :: DevconnectPretixItem where
  "ex_item8 = \<lparr> i_id = 8, i_name = \<lparr> en = ''Shirt'' \<rparr>, admission = False,
                 personalized = True, generate_tickets = None \<rparr>"

definition ex_event :: DevconnectPretixEvent where
  "ex_event = \<lparr> slug = ''ev'', e_name = \<lparr> en = ''Event'' \<rparr> \<rparr>"

definition ex_position1 :: DevconnectPretixPosition where
  "ex_position1 = \<lparr> p_id = 1001, positionid = 1, item = 7, attendee_name = Some ''Ada'',
                     attendee_email = Some ''A@X.com'', p_secret = ''s1'' \<rparr>"

definition ex_position2 :: DevconnectPretixPosition where
  "ex_position2 = \<lparr> p_id = 1002, positionid = 2, item = 7, attendee_name = None,
                     attendee_email = None, p_secret = ''s2'' \<rparr>"

definition ex_order :: DevconnectPretixOrder where
  "ex_order = \<lparr> code = ''ABC'', status = ''p'', o_email = ''Buyer@X.com'',
                 positions = [ex_position1, ex_position2] \<rparr>"

definition ex_pending :: DevconnectPretixOrder where
  "ex_pending = \<lparr> code = ''DEF'', status = ''n'', o_email = ''late@x.com'',
                   positions = [ex_position1] \<rparr>"

text \<open>
  A provider whose event \<^verbatim>\<open>e1\<close> cannot be fetched, whose event \<^verbatim>\<open>e3\<close> offers a product
  that is not an admission product, and whose other events are in order.
\<close>

definition ex_api :: pretix_api where
  "ex_api =
     \<lparr> fetchEventSettings = (\<lambda>url tok ev. if ev = ''e1'' then Inl (ApiError ''e1'') else Inr ex_settings),
       fetchItems = (\<lambda>url tok ev. if ev = ''e3'' then Inr [ex_item8] else Inr [ex_item7]),
       fetchEvent = (\<lambda>url tok ev. Inr ex_event),
       fetchOrders = (\<lambda>url tok ev. Inr [ex_order, ex_pending]) \<rparr>"

definition ex_ev1 :: DevconnectPretixEventConfig where
  "ex_ev1 = \<lparr> ec_id = ''c1'', eventID = ''e1'', activeItemIDs = [''7''] \<rparr>"

definition ex_ev2 :: DevconnectPretixEventConfig where
  "ex_ev2 = \<lparr> ec_id = ''c2'', eventID = ''e2'', activeItemIDs = [''7''] \<rparr>"

definition ex_ev3 :: DevconnectPretixEventConfig where
  "ex_ev3 = \<lparr> ec_id = ''c3'', eventID = ''e3'', activeItemIDs = [''8''] \<rparr>"

definition ex_ev4 :: DevconnectPretixEventConfig where
  "ex_ev4 = \<lparr> ec_id = ''c4'', eventID = ''e4'', activeItemIDs = [''7'', ''42''] \<rparr>"

definition ex_data :: EventData where
  "ex_data = \<lparr> settings = ex_settings, eventInfo = ex_event, items = [ex_item7],
                tickets = [ex_order, ex_pending] \<rparr>"

definition ex_orgF :: DevconnectPretixOrganizerConfig where
  "ex_orgF = \<lparr> org_id = ''F'', orgURL = ''https://f'', token = ''tf'', events = [ex_ev1, ex_ev2] \<rparr>"

definition ex_orgV :: DevconnectPretixOrganizerConfig where
  "ex_orgV = \<lparr> org_id = ''V'', orgURL = ''https://v'', token = ''tv'', events = [ex_ev2, ex_ev3] \<rparr>"

definition ex_orgB :: DevconnectPretixOrganizerConfig where
  "ex_orgB = \<lparr> org_id = ''B'', orgURL = ''https://b'', token = ''tb'', events = [ex_ev2] \<rparr>"

text \<open>An organizer whose only event lists an active item that the provider does not offer.\<close>

definition ex_orgD :: DevconnectPretixOrganizerConfig where
  "ex_orgD = \<lparr> org_id = ''D'', orgURL = ''https://d'', token = ''td'', events = [ex_ev4] \<rparr>"

definition empty_db :: pretix_db where
  "empty_db = \<lparr> event_infos = [], item_infos = [], ticket_rows = [] \<rparr>"

definition ex_collaborators :: "DevconnectPretixConfig option \<Rightarrow> pretix_db collaborators" where
  "ex_collaborators cfg =
     \<lparr> theStore = specStore,
       getDevconnectPretixConfig = (\<lambda>d. Inr cfg),
       semaphoreReload = (\<lambda>d. Inr ()) \<rparr>"

definition ex_data3 :: EventData where
  "ex_data3 = \<lparr> settings = ex_settings, eventInfo = ex_event, items = [ex_item8],
                 tickets = [ex_order, ex_pending] \<rparr>"

definition ex_itemInfo7 :: PretixItemInfo where
  "ex_itemInfo7 = \<lparr> ii_id = 1, item_id = ''7'', devconnect_pretix_events_info_id = 1,
                     item_name = ''General'', ii_is_deleted = False \<rparr>"

definition ex_db4 :: pretix_db where
  "ex_db4 = \<lparr> event_infos = [\<lparr> ei_id = 1, pretix_events_config_id = ''c4'',
                                 event_name = ''Event'', ei_is_deleted = False \<rparr>],
               item_infos = [], ticket_rows = [] \<rparr>"

text \<open>
  A store that holds stale rows for the event config \<^verbatim>\<open>c2\<close>: an old event name, an item
  under an old name, an item that is no longer offered, a redeemed ticket with an old
  email and a ticket whose position is gone.
\<close>

definition ex_db2 :: pretix_db where
  "ex_db2 =
     \<lparr> event_infos = [\<lparr> ei_id = 1, pretix_events_config_id = ''c2'',
                        event_name = ''Old name'', ei_is_deleted = False \<rparr>],
       item_infos = [\<lparr> ii_id = 1, item_id = ''7'', devconnect_pretix_events_info_id = 1,
                       item_name = ''Early bird'', ii_is_deleted = False \<rparr>,
                     \<lparr> ii_id = 2, item_id = ''9'', devconnect_pretix_events_info_id = 1,
                       item_name = ''Gone'', ii_is_deleted = False \<rparr>],
       ticket_rows = [\<lparr> email = ''old@x.com'', full_name = Some ''Ada'',
                        devconnect_pretix_items_info_id = 1, is_deleted = False,
                        is_consumed = True, position_id = ''1001'', secret = ''s0'' \<rparr>,
                      \<lparr> email = ''gone@x.com'', full_name = None,
                        devconnect_pretix_items_info_id = 2, is_deleted = False,
                        is_consumed = False, position_id = ''999'', secret = ''s9'' \<rparr>] \<rparr>"

section \<open>Facts about the computations\<close>

lemmas io_defs = bindT_def catchT_def throwT_def returnT_def emit_def storeRead_def storeWrite_def
  reportAndReturnFalse_def

lemma promiseAllSettled_resolves: "fst (promiseAllSettled f xs s) = Inr ()"
  by (cases xs) (auto split: prod.splits)

lemma promiseAll_resolves:
  "(\<And>x s. fst (f x s) = Inr ()) \<Longrightarrow> fst (promiseAll f xs s) = Inr ()"
proof (induction xs arbitrary: s)
  case Nil
  then show ?case by simp
next
  case (Cons x xs)
  obtain r tr s' where 1: "f x s = (r, tr, s')" by (metis prod_cases3)
  with Cons.prems[of x s] have r: "r = Inr ()" by simp
  obtain r' tr' s'' where 2: "promiseAll f xs s' = (r', tr', s'')" by (metis prod_cases3)
  with Cons.IH[OF Cons.prems, of s'] have "r' = Inr ()" by simp
  with 1 2 r show ?case by simp
qed

section \<open>Facts about the conversion of orders\<close>

lemma ordersLoop_append:
  "ordersLoop m (xs @ ys) =
     (fst (ordersLoop m xs) @ fst (ordersLoop m ys), snd (ordersLoop m xs) @ snd (ordersLoop m ys))"
  by (induction xs) (simp_all add: Let_def)

lemma positionsToTickets_member:
  assumes "p \<in> set ps" and "m (toString (item p)) = Some info"
  shows "positionTicket ord p info \<in> set (snd (positionsToTickets m ord ps))"
  using assms by (induction ps) (auto simp: Let_def split: option.splits)

lemma positionsToTickets_log:
  assumes "p \<in> set ps" and "m (toString (item p)) = Some info" and "falsy (attendee_email p)"
  shows "LogNoAttendeeEmail (code ord) (positionid p) (o_email ord)
           \<in> set (fst (positionsToTickets m ord ps))"
  using assms by (induction ps) (auto simp: Let_def split: option.splits)

lemma positionsToTickets_no_report: "reports_of (fst (positionsToTickets m ord ps)) = []"
  by (induction ps) (auto simp: Let_def reports_of_def split: option.splits)

lemma ordersLoop_no_report: "reports_of (fst (ordersLoop m ords)) = []"
  using positionsToTickets_no_report
  by (induction ords) (auto simp: Let_def reports_of_def)

lemma ordersLoop_member:
  assumes "ord \<in> set ords" and "status ord = ''p''"
    and "x \<in> set (snd (positionsToTickets m ord (positions ord)))"
  shows "x \<in> set (snd (ordersLoop m ords))"
  using assms by (induction ords) (auto simp: Let_def)

lemma ordersLoop_log_member:
  assumes "ord \<in> set ords" and "status ord = ''p''"
    and "x \<in> set (fst (positionsToTickets m ord (positions ord)))"
  shows "x \<in> set (fst (ordersLoop m ords))"
  using assms by (induction ords) (auto simp: Let_def)

text \<open>
  Claim C8. An order whose status is not paid (\<^verbatim>\<open>"p"\<close>) contributes nothing to the
  conversion, whatever its positions are: with or without it in the list of fetched
  orders, the tickets (and the log lines) are the same.
\<close>

theorem unpaid_order_contributes_nothing:
  "status ord \<noteq> ''p'' \<Longrightarrow>
   ordersToDevconnectTickets (before @ ord # after) itemsInfo =
   ordersToDevconnectTickets (before @ after) itemsInfo"
  by (simp add: ordersToDevconnectTickets_def ordersLoop_append)

theorem unpaid_order_contributes_nothing_witness:
  "status ex_pending \<noteq> ''p'' \<and>
   ordersToDevconnectTickets ([ex_order] @ ex_pending # []) [ex_itemInfo7] =
   ordersToDevconnectTickets ([ex_order] @ []) [ex_itemInfo7]"
proof -
  have h: "status ex_pending \<noteq> ''p''" by (simp add: ex_pending_def)
  show ?thesis using h unpaid_order_contributes_nothing [OF h, of "[ex_order]" "[]" "[ex_itemInfo7]"]
    by simp
qed

text \<open>
  Claim C9. For a position of a paid order whose item is among the given item infos, a
  ticket is produced that carries the position's id and the item info's id, and whose
  email is the attendee email in lower case when that is present and not empty, and the
  purchaser's email in lower case otherwise. In the second case a line is logged. The
  conversion reports no error.
\<close>

theorem ticket_email_falls_back_to_order_email:
  assumes "ord \<in> set orders" and "status ord = ''p''" and "p \<in> set (positions ord)"
    and "newMap (map (\<lambda>i. (item_id i, i)) itemsInfo) (toString (item p)) = Some info"
  shows "(\<exists>t \<in> set (snd (ordersToDevconnectTickets orders itemsInfo)).
            position_id t = toString (p_id p) \<and>
            devconnect_pretix_items_info_id t = ii_id info \<and>
            full_name t = attendee_name p \<and>
            email t = (case attendee_email p of
                         None \<Rightarrow> toLowerCase (o_email ord)
                       | Some a \<Rightarrow> if a = [] then toLowerCase (o_email ord) else toLowerCase a)) \<and>
         ((attendee_email p = None \<or> attendee_email p = Some []) \<longrightarrow>
            LogNoAttendeeEmail (code ord) (positionid p) (o_email ord)
              \<in> set (fst (ordersToDevconnectTickets orders itemsInfo))) \<and>
         reports_of (fst (ordersToDevconnectTickets orders itemsInfo)) = []"
proof -
  let ?m = "newMap (map (\<lambda>i. (item_id i, i)) itemsInfo)"
  have pt: "positionTicket ord p info \<in> set (snd (positionsToTickets ?m ord (positions ord)))"
    by (rule positionsToTickets_member[where m="?m", OF assms(3) assms(4)])
  have mem: "positionTicket ord p info \<in> set (snd (ordersToDevconnectTickets orders itemsInfo))"
    unfolding ordersToDevconnectTickets_def
    by (rule ordersLoop_member[OF assms(1) assms(2) pt])
  have 1: "\<exists>t \<in> set (snd (ordersToDevconnectTickets orders itemsInfo)).
      position_id t = toString (p_id p) \<and>
      devconnect_pretix_items_info_id t = ii_id info \<and>
      full_name t = attendee_name p \<and>
      email t = (case attendee_email p of
                   None \<Rightarrow> toLowerCase (o_email ord)
                 | Some a \<Rightarrow> if a = [] then toLowerCase (o_email ord) else toLowerCase a)"
    by (rule bexI[OF _ mem]) (simp add: positionTicket_def orElse_def split: option.splits)
  have 2: "LogNoAttendeeEmail (code ord) (positionid p) (o_email ord)
             \<in> set (fst (ordersToDevconnectTickets orders itemsInfo))"
    if "attendee_email p = None \<or> attendee_email p = Some []"
  proof -
    from that have f: "falsy (attendee_email p)" by (auto simp: falsy_def)
    show ?thesis
      unfolding ordersToDevconnectTickets_def
      by (rule ordersLoop_log_member[OF assms(1) assms(2)
            positionsToTickets_log[where m="?m", OF assms(3) assms(4) f]])
  qed
  have 3: "reports_of (fst (ordersToDevconnectTickets orders itemsInfo)) = []"
    by (simp add: ordersToDevconnectTickets_def ordersLoop_no_report)
  show ?thesis
  proof (intro conjI impI)
    show "\<exists>t \<in> set (snd (ordersToDevconnectTickets orders itemsInfo)).
      position_id t = toString (p_id p) \<and>
      devconnect_pretix_items_info_id t = ii_id info \<and>
      full_name t = attendee_name p \<and>
      email t = (case attendee_email p of
                   None \<Rightarrow> toLowerCase (o_email ord)
                 | Some a \<Rightarrow> if a = [] then toLowerCase (o_email ord) else toLowerCase a)"
      by (rule 1)
  next
    assume "attendee_email p = None \<or> attendee_email p = Some []"
    then show "LogNoAttendeeEmail (code ord) (positionid p) (o_email ord)
              \<in> set (fst (ordersToDevconnectTickets orders itemsInfo))" by (rule 2)
  next
    show "reports_of (fst (ordersToDevconnectTickets orders itemsInfo)) = []" by (rule 3)
  qed
qed

theorem ticket_email_falls_back_to_order_email_witness:
  "ex_order \<in> set [ex_order, ex_pending] \<and> status ex_order = ''p'' \<and>
   ex_position2 \<in> set (positions ex_order) \<and>
   newMap (map (\<lambda>i. (item_id i, i)) [ex_itemInfo7]) (toString (item ex_position2)) = Some ex_itemInfo7 \<and>
   (\<exists>t \<in> set (snd (ordersToDevconnectTickets [ex_order, ex_pending] [ex_itemInfo7])).
      position_id t = ''1002'' \<and> email t = ''buyer@x.com'') \<and>
   LogNoAttendeeEmail ''ABC'' 2 ''Buyer@X.com''
     \<in> set (fst (ordersToDevconnectTickets [ex_order, ex_pending] [ex_itemInfo7]))"
proof -
  have h1: "ex_order \<in> set [ex_order, ex_pending]" by simp
  have h2: "status ex_order = ''p''" by (simp add: ex_order_def)
  have h3: "ex_position2 \<in> set (positions ex_order)" by (simp add: ex_order_def)
  have h4: "newMap (map (\<lambda>i. (item_id i, i)) [ex_itemInfo7]) (toString (item ex_position2))
              = Some ex_itemInfo7"
    by (simp add: newMap_def ex_itemInfo7_def ex_position2_def toString_def digits.simps
        digit_char_def)
  have e1: "toString (p_id ex_position2) = ''1002''"
    by (simp add: ex_position2_def toString_def digits.simps digit_char_def)
  have e2: "attendee_email ex_position2 = None" by (simp add: ex_position2_def)
  have e3: "toLowerCase (o_email ex_order) = ''buyer@x.com''"
    by (simp add: ex_order_def toLowerCase_def lower_char_def)
  have e4: "code ex_order = ''ABC''" "positionid ex_position2 = 2" "o_email ex_order = ''Buyer@X.com''"
    by (simp_all add: ex_order_def ex_position2_def)
  note th = ticket_email_falls_back_to_order_email [OF h1 h2 h3 h4]
  from th have a: "\<exists>t \<in> set (snd (ordersToDevconnectTickets [ex_order, ex_pending] [ex_itemInfo7])).
      position_id t = ''1002'' \<and> email t = ''buyer@x.com''"
    unfolding e1 e2 e3 by auto
  from th have b: "LogNoAttendeeEmail ''ABC'' 2 ''Buyer@X.com''
     \<in> set (fst (ordersToDevconnectTickets [ex_order, ex_pending] [ex_itemInfo7]))"
    unfolding e2 e4 by simp
  from h1 h2 h3 h4 a b show ?thesis by simp
qed

section \<open>Facts about one event's sync\<close>

lemma syncEventInfos_resolves:
  "\<exists>b tr d'. syncEventInfos S organizer event evInfo d = (Inr b, tr, d')"
  by (auto simp: syncEventInfos_def io_defs Let_def split: sum.splits option.splits prod.splits)

lemma syncItemInfos_drift_found:
  assumes "\<exists>i \<in> set (activeItemIDs event). i \<notin> set (map (\<lambda>i. toString (i_id i)) its)"
    and "fetchPretixEventInfo S d (ec_id event) = Inr (Some evInfo)"
  shows "syncItemInfos S organizer event its d =
    (Inr False,
     [Report (ActiveItemsMissing (activeItemIDs event) (setToList (map (\<lambda>i. toString (i_id i)) its)))],
     d)"
  using assms by (simp add: syncItemInfos_def io_defs Let_def)

lemma syncItemInfos_drift:
  assumes "\<exists>i \<in> set (activeItemIDs event). i \<notin> set (map (\<lambda>i. toString (i_id i)) its)"
  shows "\<exists>e. syncItemInfos S organizer event its d = (Inr False, [Report e], d)"
proof (cases "fetchPretixEventInfo S d (ec_id event)")
  case (Inl e)
  then show ?thesis by (simp add: syncItemInfos_def io_defs)
next
  case (Inr found)
  show ?thesis
  proof (cases found)
    case None
    with Inr show ?thesis by (simp add: syncItemInfos_def io_defs)
  next
    case (Some evInfo)
    with Inr syncItemInfos_drift_found[OF assms, of S d evInfo organizer] show ?thesis by simp
  qed
qed

lemma syncEvent_drift:
  assumes "\<exists>i \<in> set (activeItemIDs event). i \<notin> set (map (\<lambda>i. toString (i_id i)) (items eventData))"
  shows "snd (snd (syncEvent S organizer event eventData d)) =
         snd (snd (syncEventInfos S organizer event (eventInfo eventData) d)) \<and>
         writes_of (fst (snd (syncEvent S organizer event eventData d))) =
         writes_of (fst (snd (syncEventInfos S organizer event (eventInfo eventData) d)))"
proof -
  obtain b tr d' where 1: "syncEventInfos S organizer event (eventInfo eventData) d = (Inr b, tr, d')"
    using syncEventInfos_resolves[of S organizer event "eventInfo eventData" d] by auto
  obtain e where 2: "syncItemInfos S organizer event (items eventData) d' = (Inr False, [Report e], d')"
    using syncItemInfos_drift[OF assms, of S organizer d'] by auto
  show ?thesis using 1 2
    by (cases b) (simp_all add: syncEvent_def bindT_def catchT_def returnT_def writes_of_def)
qed

text \<open>
  Claim C5. When the active-item list of an event config names an item id that the
  fetched items do not contain, the item-info phase writes nothing, reports an error and
  returns \<^verbatim>\<open>false\<close>; the error is the drift error when the event's info row is found, as it
  is after the event-info phase. The sync of the event then ends: its store and its writes
  are those of the event-info phase, so neither item infos nor tickets are written.
\<close>

theorem allow_list_drift_fails_item_phase:
  assumes "\<exists>i \<in> set (activeItemIDs event). i \<notin> set (map (\<lambda>i. toString (i_id i)) (items eventData))"
    and "fetchPretixEventInfo S d (ec_id event) = Inr (Some evInfo)"
  shows "syncItemInfos S organizer event (items eventData) d =
           (Inr False,
            [Report (ActiveItemsMissing (activeItemIDs event)
                       (setToList (map (\<lambda>i. toString (i_id i)) (items eventData))))],
            d) \<and>
         (\<forall>d0. \<exists>e. syncItemInfos S organizer event (items eventData) d0 = (Inr False, [Report e], d0)) \<and>
         (\<forall>d0. snd (snd (syncEvent S organizer event eventData d0)) =
                 snd (snd (syncEventInfos S organizer event (eventInfo eventData) d0)) \<and>
               writes_of (fst (snd (syncEvent S organizer event eventData d0))) =
                 writes_of (fst (snd (syncEventInfos S organizer event (eventInfo eventData) d0))))"
  using syncItemInfos_drift_found[OF assms, of organizer] syncItemInfos_drift[OF assms(1), of S organizer]
    syncEvent_drift[OF assms(1), of S organizer]
  by simp

theorem allow_list_drift_fails_item_phase_witness:
  "(\<exists>i \<in> set (activeItemIDs ex_ev4). i \<notin> set (map (\<lambda>i. toString (i_id i)) (items ex_data))) \<and>
   fetchPretixEventInfo specStore ex_db4 (ec_id ex_ev4) = Inr (Some (hd (event_infos ex_db4))) \<and>
   syncItemInfos specStore ex_orgB ex_ev4 (items ex_data) ex_db4 =
     (Inr False, [Report (ActiveItemsMissing [''7'', ''42''] [''7''])], ex_db4) \<and>
   snd (snd (syncEvent specStore ex_orgB ex_ev4 ex_data empty_db)) =
     snd (snd (syncEventInfos specStore ex_orgB ex_ev4 (eventInfo ex_data) empty_db))"
proof -
  have h1: "\<exists>i \<in> set (activeItemIDs ex_ev4). i \<notin> set (map (\<lambda>i. toString (i_id i)) (items ex_data))"
    by code_simp
  have h2: "fetchPretixEventInfo specStore ex_db4 (ec_id ex_ev4) = Inr (Some (hd (event_infos ex_db4)))"
    by code_simp
  have e1: "activeItemIDs ex_ev4 = [''7'', ''42'']" by (simp add: ex_ev4_def)
  have e2: "setToList (map (\<lambda>i. toString (i_id i)) (items ex_data)) = [''7'']" by code_simp
  note th = allow_list_drift_fails_item_phase [OF h1 h2, of ex_orgB]
  from th have a: "syncItemInfos specStore ex_orgB ex_ev4 (items ex_data) ex_db4 =
     (Inr False, [Report (ActiveItemsMissing [''7'', ''42''] [''7''])], ex_db4)"
    unfolding e1 e2 by simp
  from th have b: "snd (snd (syncEvent specStore ex_orgB ex_ev4 ex_data empty_db)) =
     snd (snd (syncEventInfos specStore ex_orgB ex_ev4 (eventInfo ex_data) empty_db))"
    by simp
  from h1 h2 a b show ?thesis by simp
qed

section \<open>Facts about one organizer's sync\<close>

lemma fetchAllEventData_member:
  "fetchAllEventData api org evs = Inr allData \<Longrightarrow> ev \<in> set evs \<Longrightarrow>
   \<exists>data. fetchEventData api org ev = Inr data \<and> (ev, data) \<in> set allData"
  by (induction evs arbitrary: allData) (auto split: sum.splits)

lemma fetchAllEventData_fails:
  "ev \<in> set evs \<Longrightarrow> fetchEventData api org ev = Inl e \<Longrightarrow>
   \<exists>e'. fetchAllEventData api org evs = Inl e'"
  by (induction evs) (auto split: sum.splits)

lemma checkAllEventData_nonempty:
  "(ev, data) \<in> set allData \<Longrightarrow> checkEventData data ev \<noteq> [] \<Longrightarrow> checkAllEventData allData \<noteq> []"
  by (force simp: checkAllEventData_def)

lemma syncOrganizer_fetch_fails:
  assumes "fetchAllEventData api org (events org) = Inl e"
  shows "syncOrganizer S api org d = (Inr (), [Report e], d)"
  using assms by (simp add: syncOrganizer_def io_defs)

lemma syncOrganizer_invalid:
  assumes "fetchAllEventData api org (events org) = Inr allData" and "checkAllEventData allData \<noteq> []"
  shows "syncOrganizer S api org d =
           (Inr (), [Report (OrganizerDataInvalid (org_id org) (checkAllEventData allData))], d)"
  using assms by (simp add: syncOrganizer_def io_defs Let_def)

lemma syncOrganizer_aborts:
  assumes "ev \<in> set (events org)"
    and "fetchEventData api org ev = Inr data" and "checkEventData data ev \<noteq> []"
  shows "\<exists>e'. \<forall>d. syncOrganizer S api org d = (Inr (), [Report e'], d)"
proof (cases "fetchAllEventData api org (events org)")
  case (Inl e')
  then show ?thesis using syncOrganizer_fetch_fails[of api org e' S] by auto
next
  case (Inr allData)
  from fetchAllEventData_member[OF Inr assms(1)] assms(2) have "(ev, data) \<in> set allData" by auto
  then have "checkAllEventData allData \<noteq> []" using assms(3) by (rule checkAllEventData_nonempty)
  then show ?thesis using syncOrganizer_invalid[OF Inr, of S] by auto
qed

lemma syncOrganizer_resolves: "fst (syncOrganizer S api org d) = Inr ()"
proof (cases "fetchAllEventData api org (events org)")
  case (Inl e)
  then show ?thesis by (simp add: syncOrganizer_def io_defs)
next
  case (Inr allData)
  show ?thesis
  proof (cases "checkAllEventData allData = []")
    case True
    obtain r tr d' where p:
      "promiseAllSettled (\<lambda>(event, data). syncEvent S org event data) allData d = (r, tr, d')"
      by (cases "promiseAllSettled (\<lambda>(event, data). syncEvent S org event data) allData d") auto
    with promiseAllSettled_resolves[of "\<lambda>(event, data). syncEvent S org event data" allData d]
    have "r = Inr ()" by simp
    with p Inr True show ?thesis by (simp add: syncOrganizer_def io_defs Let_def)
  next
    case False
    with Inr show ?thesis by (simp add: syncOrganizer_def io_defs Let_def)
  qed
qed

lemma sync_resolves: "fst (sync S api cfg d) = Inr ()"
proof -
  obtain r tr d' where 1: "promiseAll (syncOrganizer S api) (organizers cfg) d = (r, tr, d')"
    by (cases "promiseAll (syncOrganizer S api) (organizers cfg) d") auto
  with promiseAll_resolves[of "syncOrganizer S api" "organizers cfg" d, OF syncOrganizer_resolves]
  have "r = Inr ()" by simp
  with 1 show ?thesis by (simp add: sync_def catchT_def)
qed

lemma sync_two:
  "sync S api \<lparr>organizers = [A, B]\<rparr> d =
     (Inr (),
      fst (snd (syncOrganizer S api A d)) @
        fst (snd (syncOrganizer S api B (snd (snd (syncOrganizer S api A d))))),
      snd (snd (syncOrganizer S api B (snd (snd (syncOrganizer S api A d))))))"
proof -
  obtain rA trA dA where a: "syncOrganizer S api A d = (rA, trA, dA)"
    by (cases "syncOrganizer S api A d") auto
  obtain rB trB dB where b: "syncOrganizer S api B dA = (rB, trB, dB)"
    by (cases "syncOrganizer S api B dA") auto
  from a syncOrganizer_resolves[of S api A d] have ra: "rA = Inr ()" by simp
  from b syncOrganizer_resolves[of S api B dA] have rb: "rB = Inr ()" by simp
  show ?thesis using a b ra rb by (simp add: sync_def catchT_def)
qed

lemma sync_is_promiseAll:
  "sync S api cfg d = promiseAll (syncOrganizer S api) (organizers cfg) d"
proof -
  obtain r tr d' where 1: "promiseAll (syncOrganizer S api) (organizers cfg) d = (r, tr, d')"
    by (cases "promiseAll (syncOrganizer S api) (organizers cfg) d") auto
  with promiseAll_resolves[of "syncOrganizer S api" "organizers cfg" d, OF syncOrganizer_resolves]
  have "r = Inr ()" by simp
  with 1 show ?thesis by (simp add: sync_def catchT_def)
qed

lemma promiseAll_skip:
  assumes "\<And>s. f x s = (Inr (), tr0, s)"
  shows "\<exists>r t1 t2 s'. promiseAll f (front @ x # rest) s = (r, t1 @ tr0 @ t2, s') \<and>
                       promiseAll f (front @ rest) s = (r, t1 @ t2, s')"
proof (induction front arbitrary: s)
  case Nil
  obtain r' tr' s'' where p: "promiseAll f rest s = (r', tr', s'')"
    by (cases "promiseAll f rest s") auto
  have "promiseAll f ([] @ x # rest) s = (r', [] @ tr0 @ tr', s'') \<and>
        promiseAll f ([] @ rest) s = (r', [] @ tr', s'')"
    using p assms[of s] by simp
  then show ?case by blast
next
  case (Cons a front)
  obtain ra tra sa where a: "f a s = (ra, tra, sa)" by (cases "f a s") auto
  from Cons.IH[of sa] obtain r t1 t2 s' where
    1: "promiseAll f (front @ x # rest) sa = (r, t1 @ tr0 @ t2, s')"
    and 2: "promiseAll f (front @ rest) sa = (r, t1 @ t2, s')"
    by blast
  have "promiseAll f ((a # front) @ x # rest) s =
          ((case ra of Inl e \<Rightarrow> Inl e | Inr u \<Rightarrow> r), (tra @ t1) @ tr0 @ t2, s') \<and>
        promiseAll f ((a # front) @ rest) s =
          ((case ra of Inl e \<Rightarrow> Inl e | Inr u \<Rightarrow> r), (tra @ t1) @ t2, s')"
    using a 1 2 by simp
  then show ?case by blast
qed

lemma sync_skip_aborted:
  assumes "\<And>d. syncOrganizer S api X d = (Inr (), [Report e], d)"
  shows "\<exists>t1 t2 d'.
           sync S api \<lparr>organizers = front @ X # rest\<rparr> d = (Inr (), t1 @ Report e # t2, d') \<and>
           sync S api \<lparr>organizers = front @ rest\<rparr> d = (Inr (), t1 @ t2, d')"
proof -
  from promiseAll_skip[of "syncOrganizer S api" X "[Report e]" front rest d, OF assms]
  obtain r t1 t2 d' where
    1: "promiseAll (syncOrganizer S api) (front @ X # rest) d = (r, t1 @ [Report e] @ t2, d')"
    and 2: "promiseAll (syncOrganizer S api) (front @ rest) d = (r, t1 @ t2, d')"
    by blast
  from promiseAll_resolves[of "syncOrganizer S api" "front @ rest" d, OF syncOrganizer_resolves] 2
  have r: "r = Inr ()" by simp
  have "sync S api \<lparr>organizers = front @ X # rest\<rparr> d = (Inr (), t1 @ Report e # t2, d')"
    using 1 r by (simp add: sync_is_promiseAll)
  moreover have "sync S api \<lparr>organizers = front @ rest\<rparr> d = (Inr (), t1 @ t2, d')"
    using 2 r by (simp add: sync_is_promiseAll)
  ultimately show ?thesis by blast
qed

lemma sync_without_aborted:
  assumes "\<And>d. syncOrganizer S api X d = (Inr (), [Report e], d)"
  shows "fst (sync S api \<lparr>organizers = front @ X # rest\<rparr> d) = Inr () \<and>
         snd (snd (sync S api \<lparr>organizers = front @ X # rest\<rparr> d)) =
           snd (snd (sync S api \<lparr>organizers = front @ rest\<rparr> d)) \<and>
         writes_of (fst (snd (sync S api \<lparr>organizers = front @ X # rest\<rparr> d))) =
           writes_of (fst (snd (sync S api \<lparr>organizers = front @ rest\<rparr> d))) \<and>
         (\<forall>x. count_list (fst (snd (sync S api \<lparr>organizers = front @ X # rest\<rparr> d))) x =
              count_list (Report e # fst (snd (sync S api \<lparr>organizers = front @ rest\<rparr> d))) x)"
proof -
  from sync_skip_aborted[of S api X e front rest d, OF assms] obtain t1 t2 d' where
    1: "sync S api \<lparr>organizers = front @ X # rest\<rparr> d = (Inr (), t1 @ Report e # t2, d')"
    and 2: "sync S api \<lparr>organizers = front @ rest\<rparr> d = (Inr (), t1 @ t2, d')"
    by blast
  show ?thesis unfolding 1 2 by (simp add: writes_of_def)
qed

lemma syncOrganizer_aborted:
  assumes "event \<in> set (events A)"
    and "(\<exists>e. fetchEventData api A event = Inl e) \<or>
         (\<exists>data. fetchEventData api A event = Inr data \<and> checkEventData data event \<noteq> [])"
  shows "\<exists>e'. \<forall>d. syncOrganizer S api A d = (Inr (), [Report e'], d)"
  using assms(2)
proof
  assume "\<exists>e. fetchEventData api A event = Inl e"
  then obtain e where "fetchEventData api A event = Inl e" by blast
  from fetchAllEventData_fails[OF assms(1) this] obtain e' where
    "fetchAllEventData api A (events A) = Inl e'" by blast
  from syncOrganizer_fetch_fails[OF this, of S] show ?thesis by blast
next
  assume "\<exists>data. fetchEventData api A event = Inr data \<and> checkEventData data event \<noteq> []"
  then obtain data where "fetchEventData api A event = Inr data" "checkEventData data event \<noteq> []"
    by blast
  from syncOrganizer_aborts[OF assms(1) this, of S] show ?thesis .
qed

text \<open>
  Claim C3. When the data fetched for one event of an organizer violates a validation
  rule, the organizer's pass writes nothing: the store is the one before, and the trace of
  the pass is a single reported error.
\<close>

theorem validation_failure_writes_nothing:
  assumes "event \<in> set (events organizer)"
    and "fetchEventData api organizer event = Inr data"
    and "checkEventData data event \<noteq> []"
  shows "\<exists>e. syncOrganizer S api organizer d = (Inr (), [Report e], d)"
  using syncOrganizer_aborts[OF assms, of S] by auto

theorem validation_failure_writes_nothing_witness:
  "ex_ev3 \<in> set (events ex_orgV) \<and>
   fetchEventData ex_api ex_orgV ex_ev3 = Inr ex_data3 \<and>
   checkEventData ex_data3 ex_ev3 \<noteq> [] \<and>
   (\<exists>e. syncOrganizer specStore ex_api ex_orgV empty_db = (Inr (), [Report e], empty_db))"
proof -
  have h1: "ex_ev3 \<in> set (events ex_orgV)" by (simp add: ex_orgV_def)
  have h2: "fetchEventData ex_api ex_orgV ex_ev3 = Inr ex_data3" by code_simp
  have h3: "checkEventData ex_data3 ex_ev3 \<noteq> []" by code_simp
  from h1 h2 h3 validation_failure_writes_nothing [OF h1 h2 h3, of specStore empty_db]
  show ?thesis by simp
qed

text \<open>
  Claim C1, as amended. When the fetch of one event of an organizer fails, the fetch of
  all events fails, and the organizer's whole pass is given up: no event of the organizer
  is synced, nothing is written, the store is the one before (so the rows of the failed
  event, like all others, stay as they were), and the error is reported once. The other
  organizers are not affected: a pass over a configuration that holds the organizer
  resolves with the store and the writes of the pass over the other organizers alone, and
  its trace is that of the others with the one report added.
\<close>

theorem fetch_failure_aborts_whole_organizer:
  assumes "event \<in> set (events organizer)"
    and "fetchEventData api organizer event = Inl e"
  shows "\<exists>e'. fetchAllEventData api organizer (events organizer) = Inl e' \<and>
              (\<forall>d. syncOrganizer S api organizer d = (Inr (), [Report e'], d)) \<and>
              (\<forall>front rest d.
                 fst (sync S api \<lparr>organizers = front @ organizer # rest\<rparr> d) = Inr () \<and>
                 snd (snd (sync S api \<lparr>organizers = front @ organizer # rest\<rparr> d)) =
                   snd (snd (sync S api \<lparr>organizers = front @ rest\<rparr> d)) \<and>
                 writes_of (fst (snd (sync S api \<lparr>organizers = front @ organizer # rest\<rparr> d))) =
                   writes_of (fst (snd (sync S api \<lparr>organizers = front @ rest\<rparr> d))) \<and>
                 (\<forall>x. count_list (fst (snd (sync S api \<lparr>organizers = front @ organizer # rest\<rparr> d))) x =
                      count_list (Report e' # fst (snd (sync S api \<lparr>organizers = front @ rest\<rparr> d))) x))"
proof -
  from fetchAllEventData_fails[OF assms] obtain e' where
    f: "fetchAllEventData api organizer (events organizer) = Inl e'" by auto
  have ab: "\<And>d. syncOrganizer S api organizer d = (Inr (), [Report e'], d)"
    using syncOrganizer_fetch_fails[OF f, of S] by simp
  from f ab sync_without_aborted[of S api organizer e', OF ab] show ?thesis by blast
qed

theorem fetch_failure_aborts_whole_organizer_witness:
  "ex_ev1 \<in> set (events ex_orgF) \<and>
   fetchEventData ex_api ex_orgF ex_ev1 = Inl (ApiError ''e1'') \<and>
   (\<exists>e'. fetchAllEventData ex_api ex_orgF (events ex_orgF) = Inl e' \<and>
      (\<forall>d. syncOrganizer specStore ex_api ex_orgF d = (Inr (), [Report e'], d)) \<and>
      snd (snd (sync specStore ex_api \<lparr>organizers = [ex_orgF, ex_orgB]\<rparr> empty_db)) =
        snd (snd (sync specStore ex_api \<lparr>organizers = [ex_orgB]\<rparr> empty_db)) \<and>
      writes_of (fst (snd (sync specStore ex_api \<lparr>organizers = [ex_orgF, ex_orgB]\<rparr> empty_db))) =
        writes_of (fst (snd (sync specStore ex_api \<lparr>organizers = [ex_orgB]\<rparr> empty_db)))) \<and>
   writes_of (fst (snd (sync specStore ex_api \<lparr>organizers = [ex_orgB]\<rparr> empty_db))) \<noteq> []"
proof -
  have h1: "ex_ev1 \<in> set (events ex_orgF)" by (simp add: ex_orgF_def)
  have h2: "fetchEventData ex_api ex_orgF ex_ev1 = Inl (ApiError ''e1'')" by code_simp
  have w: "writes_of (fst (snd (sync specStore ex_api \<lparr>organizers = [ex_orgB]\<rparr> empty_db))) \<noteq> []"
    by code_simp
  from fetch_failure_aborts_whole_organizer [OF h1 h2, of specStore] obtain e' where
    a: "fetchAllEventData ex_api ex_orgF (events ex_orgF) = Inl e'"
    and b: "\<forall>d. syncOrganizer specStore ex_api ex_orgF d = (Inr (), [Report e'], d)"
    and c: "\<forall>front rest d.
                 fst (sync specStore ex_api \<lparr>organizers = front @ ex_orgF # rest\<rparr> d) = Inr () \<and>
                 snd (snd (sync specStore ex_api \<lparr>organizers = front @ ex_orgF # rest\<rparr> d)) =
                   snd (snd (sync specStore ex_api \<lparr>organizers = front @ rest\<rparr> d)) \<and>
                 writes_of (fst (snd (sync specStore ex_api \<lparr>organizers = front @ ex_orgF # rest\<rparr> d))) =
                   writes_of (fst (snd (sync specStore ex_api \<lparr>organizers = front @ rest\<rparr> d))) \<and>
                 (\<forall>x. count_list (fst (snd (sync specStore ex_api \<lparr>organizers = front @ ex_orgF # rest\<rparr> d))) x =
                      count_list (Report e' # fst (snd (sync specStore ex_api \<lparr>organizers = front @ rest\<rparr> d))) x)"
    by blast
  from c[rule_format, of "[]" "[ex_orgB]" empty_db]
  have d: "snd (snd (sync specStore ex_api \<lparr>organizers = [ex_orgF, ex_orgB]\<rparr> empty_db)) =
        snd (snd (sync specStore ex_api \<lparr>organizers = [ex_orgB]\<rparr> empty_db)) \<and>
      writes_of (fst (snd (sync specStore ex_api \<lparr>organizers = [ex_orgF, ex_orgB]\<rparr> empty_db))) =
        writes_of (fst (snd (sync specStore ex_api \<lparr>organizers = [ex_orgB]\<rparr> empty_db)))"
    by simp
  from a b d have "\<exists>e'. fetchAllEventData ex_api ex_orgF (events ex_orgF) = Inl e' \<and>
      (\<forall>d. syncOrganizer specStore ex_api ex_orgF d = (Inr (), [Report e'], d)) \<and>
      snd (snd (sync specStore ex_api \<lparr>organizers = [ex_orgF, ex_orgB]\<rparr> empty_db)) =
        snd (snd (sync specStore ex_api \<lparr>organizers = [ex_orgB]\<rparr> empty_db)) \<and>
      writes_of (fst (snd (sync specStore ex_api \<lparr>organizers = [ex_orgF, ex_orgB]\<rparr> empty_db))) =
        writes_of (fst (snd (sync specStore ex_api \<lparr>organizers = [ex_orgB]\<rparr> empty_db)))"
    by blast
  with h1 h2 w show ?thesis by (intro conjI)
qed

text \<open>
  The claim as it was stated fails: the organizer \<open>ex_orgF\<close> has two events, the fetch
  fails for the first only, the data of the second is valid and its sync alone would
  write to the empty store; yet the organizer's pass writes nothing.
\<close>

theorem fetch_failure_is_not_event_local_counterexample:
  "fetchEventData ex_api ex_orgF ex_ev1 = Inl (ApiError ''e1'') \<and>
   fetchEventData ex_api ex_orgF ex_ev2 = Inr ex_data \<and>
   checkEventData ex_data ex_ev2 = [] \<and>
   writes_of (fst (snd (syncEvent specStore ex_orgF ex_ev2 ex_data empty_db))) \<noteq> [] \<and>
   syncOrganizer specStore ex_api ex_orgF empty_db = (Inr (), [Report (ApiError ''e1'')], empty_db)"
  by code_simp

text \<open>
  Claim C4. An organizer's task never rejects, whatever happened inside it, so that
  nothing reaches the join: the pass over \<open>A\<close> and \<open>B\<close> resolves, the task of \<open>B\<close> is run
  in full on the store that the task of \<open>A\<close> left, and the trace of the pass holds the
  effects of the two tasks and nothing else. When the task of \<open>A\<close> was given up, because a
  fetch of one of its events failed or because the data of one of its events failed
  validation, \<open>A\<close> writes nothing and reports one error, and the pass over \<open>A\<close> and \<open>B\<close>, in
  either order, ends in the store that the sync of \<open>B\<close> alone gives, with the writes of
  \<open>B\<close> alone and the report of \<open>A\<close> next to the effects of \<open>B\<close>.
\<close>

theorem organizer_failure_is_isolated:
  "(\<forall>X d'. fst (syncOrganizer S api X d') = Inr ()) \<and>
   fst (sync S api \<lparr>organizers = [A, B]\<rparr> d) = Inr () \<and>
   snd (snd (sync S api \<lparr>organizers = [A, B]\<rparr> d)) =
     snd (snd (syncOrganizer S api B (snd (snd (syncOrganizer S api A d))))) \<and>
   (\<forall>x. count_list (fst (snd (sync S api \<lparr>organizers = [A, B]\<rparr> d))) x =
        count_list (fst (snd (syncOrganizer S api A d))) x +
        count_list (fst (snd (syncOrganizer S api B (snd (snd (syncOrganizer S api A d)))))) x) \<and>
   ((\<exists>event \<in> set (events A).
        (\<exists>e. fetchEventData api A event = Inl e) \<or>
        (\<exists>data. fetchEventData api A event = Inr data \<and> checkEventData data event \<noteq> [])) \<longrightarrow>
    (\<exists>e. syncOrganizer S api A d = (Inr (), [Report e], d) \<and>
         snd (snd (sync S api \<lparr>organizers = [A, B]\<rparr> d)) = snd (snd (syncOrganizer S api B d)) \<and>
         snd (snd (sync S api \<lparr>organizers = [B, A]\<rparr> d)) = snd (snd (syncOrganizer S api B d)) \<and>
         writes_of (fst (snd (sync S api \<lparr>organizers = [A, B]\<rparr> d))) =
           writes_of (fst (snd (syncOrganizer S api B d))) \<and>
         writes_of (fst (snd (sync S api \<lparr>organizers = [B, A]\<rparr> d))) =
           writes_of (fst (snd (syncOrganizer S api B d))) \<and>
         (\<forall>x. count_list (fst (snd (sync S api \<lparr>organizers = [A, B]\<rparr> d))) x =
              count_list (Report e # fst (snd (syncOrganizer S api B d))) x) \<and>
         (\<forall>x. count_list (fst (snd (sync S api \<lparr>organizers = [B, A]\<rparr> d))) x =
              count_list (Report e # fst (snd (syncOrganizer S api B d))) x)))"
proof -
  have never: "\<forall>X d'. fst (syncOrganizer S api X d') = Inr ()"
    by (simp add: syncOrganizer_resolves)
  have res: "fst (sync S api \<lparr>organizers = [A, B]\<rparr> d) = Inr ()" by (rule sync_resolves)
  have st: "snd (snd (sync S api \<lparr>organizers = [A, B]\<rparr> d)) =
     snd (snd (syncOrganizer S api B (snd (snd (syncOrganizer S api A d)))))"
    by (simp add: sync_two)
  have tr: "\<forall>x. count_list (fst (snd (sync S api \<lparr>organizers = [A, B]\<rparr> d))) x =
        count_list (fst (snd (syncOrganizer S api A d))) x +
        count_list (fst (snd (syncOrganizer S api B (snd (snd (syncOrganizer S api A d)))))) x"
    by (simp add: sync_two)
  have ab: "\<exists>e. syncOrganizer S api A d = (Inr (), [Report e], d) \<and>
         snd (snd (sync S api \<lparr>organizers = [A, B]\<rparr> d)) = snd (snd (syncOrganizer S api B d)) \<and>
         snd (snd (sync S api \<lparr>organizers = [B, A]\<rparr> d)) = snd (snd (syncOrganizer S api B d)) \<and>
         writes_of (fst (snd (sync S api \<lparr>organizers = [A, B]\<rparr> d))) =
           writes_of (fst (snd (syncOrganizer S api B d))) \<and>
         writes_of (fst (snd (sync S api \<lparr>organizers = [B, A]\<rparr> d))) =
           writes_of (fst (snd (syncOrganizer S api B d))) \<and>
         (\<forall>x. count_list (fst (snd (sync S api \<lparr>organizers = [A, B]\<rparr> d))) x =
              count_list (Report e # fst (snd (syncOrganizer S api B d))) x) \<and>
         (\<forall>x. count_list (fst (snd (sync S api \<lparr>organizers = [B, A]\<rparr> d))) x =
              count_list (Report e # fst (snd (syncOrganizer S api B d))) x)"
    if h: "\<exists>event \<in> set (events A).
        (\<exists>e. fetchEventData api A event = Inl e) \<or>
        (\<exists>data. fetchEventData api A event = Inr data \<and> checkEventData data event \<noteq> [])"
  proof -
    from h obtain event where ev: "event \<in> set (events A)"
      and bad: "(\<exists>e. fetchEventData api A event = Inl e) \<or>
        (\<exists>data. fetchEventData api A event = Inr data \<and> checkEventData data event \<noteq> [])"
      by blast
    from syncOrganizer_aborted[OF ev bad, of S] obtain e where
      e: "\<And>d. syncOrganizer S api A d = (Inr (), [Report e], d)" by auto
    have 1: "sync S api \<lparr>organizers = [A, B]\<rparr> d =
            (Inr (), Report e # fst (snd (syncOrganizer S api B d)),
             snd (snd (syncOrganizer S api B d)))"
      by (simp add: sync_two e)
    have 2: "sync S api \<lparr>organizers = [B, A]\<rparr> d =
            (Inr (), fst (snd (syncOrganizer S api B d)) @ [Report e],
             snd (snd (syncOrganizer S api B d)))"
      by (simp add: sync_two e)
    show ?thesis
      unfolding 1 2 using e[of d] by (intro exI[of _ e]) (simp add: writes_of_def)
  qed
  from never res st tr ab show ?thesis by blast
qed

theorem organizer_failure_is_isolated_witness:
  "ex_ev1 \<in> set (events ex_orgF) \<and>
   fetchEventData ex_api ex_orgF ex_ev1 = Inl (ApiError ''e1'') \<and>
   snd (snd (sync specStore ex_api \<lparr>organizers = [ex_orgF, ex_orgB]\<rparr> empty_db)) =
     snd (snd (syncOrganizer specStore ex_api ex_orgB empty_db)) \<and>
   writes_of (fst (snd (sync specStore ex_api \<lparr>organizers = [ex_orgF, ex_orgB]\<rparr> empty_db))) =
     writes_of (fst (snd (syncOrganizer specStore ex_api ex_orgB empty_db))) \<and>
   writes_of (fst (snd (syncOrganizer specStore ex_api ex_orgB empty_db))) \<noteq> [] \<and>
   reports_of (fst (snd (syncOrganizer specStore ex_api ex_orgD empty_db))) =
     [Report (ActiveItemsMissing [''7'', ''42''] [''7''])] \<and>
   snd (snd (sync specStore ex_api \<lparr>organizers = [ex_orgD, ex_orgB]\<rparr> empty_db)) =
     snd (snd (syncOrganizer specStore ex_api ex_orgB
                 (snd (snd (syncOrganizer specStore ex_api ex_orgD empty_db))))) \<and>
   map position_id
     (ticket_rows (snd (snd (sync specStore ex_api \<lparr>organizers = [ex_orgD, ex_orgB]\<rparr> empty_db)))) =
     [''1001'', ''1002'']"
proof -
  have h1: "ex_ev1 \<in> set (events ex_orgF)" by (simp add: ex_orgF_def)
  have h2: "fetchEventData ex_api ex_orgF ex_ev1 = Inl (ApiError ''e1'')" by code_simp
  have h: "\<exists>event \<in> set (events ex_orgF).
        (\<exists>e. fetchEventData ex_api ex_orgF event = Inl e) \<or>
        (\<exists>data. fetchEventData ex_api ex_orgF event = Inr data \<and> checkEventData data event \<noteq> [])"
    using h1 h2 by blast
  have w: "writes_of (fst (snd (syncOrganizer specStore ex_api ex_orgB empty_db))) \<noteq> []"
    by code_simp
  have r: "reports_of (fst (snd (syncOrganizer specStore ex_api ex_orgD empty_db))) =
     [Report (ActiveItemsMissing [''7'', ''42''] [''7''])]"
    by code_simp
  have p: "map position_id
     (ticket_rows (snd (snd (sync specStore ex_api \<lparr>organizers = [ex_orgD, ex_orgB]\<rparr> empty_db)))) =
     [''1001'', ''1002'']"
    by code_simp
  note th = organizer_failure_is_isolated [of specStore ex_api ex_orgF ex_orgB empty_db]
  from th h have a: "snd (snd (sync specStore ex_api \<lparr>organizers = [ex_orgF, ex_orgB]\<rparr> empty_db)) =
     snd (snd (syncOrganizer specStore ex_api ex_orgB empty_db))"
    by blast
  from th h have b: "writes_of (fst (snd (sync specStore ex_api \<lparr>organizers = [ex_orgF, ex_orgB]\<rparr> empty_db))) =
     writes_of (fst (snd (syncOrganizer specStore ex_api ex_orgB empty_db)))"
    by blast
  note th2 = organizer_failure_is_isolated [of specStore ex_api ex_orgD ex_orgB empty_db]
  from th2 have c: "snd (snd (sync specStore ex_api \<lparr>organizers = [ex_orgD, ex_orgB]\<rparr> empty_db)) =
     snd (snd (syncOrganizer specStore ex_api ex_orgB
                 (snd (snd (syncOrganizer specStore ex_api ex_orgD empty_db)))))"
    by blast
  from h1 h2 a b w r c p show ?thesis by (intro conjI)
qed

section \<open>Facts about the service\<close>

lemma trySync_flag:
  "hasCompletedSyncSinceStarting (snd (trySync C sv)) =
     (hasCompletedSyncSinceStarting sv \<or> passCompletes C sv)"
proof (cases "getDevconnectPretixConfig C (database sv)")
  case (Inl e)
  then show ?thesis by (simp add: trySync_def trySyncBody_def passCompletes_def io_defs)
next
  case (Inr found)
  show ?thesis
  proof (cases found)
    case None
    with Inr show ?thesis by (simp add: trySync_def trySyncBody_def passCompletes_def io_defs)
  next
    case (Some cfg)
    obtain r tr d' where s: "sync (theStore C) (pretixAPI sv) cfg (database sv) = (r, tr, d')"
      by (cases "sync (theStore C) (pretixAPI sv) cfg (database sv)") auto
    with sync_resolves[of "theStore C" "pretixAPI sv" cfg "database sv"] have r: "r = Inr ()" by simp
    show ?thesis using Inr Some s r
      by (cases "semaphoreReload C d'")
         (simp_all add: trySync_def trySyncBody_def passCompletes_def io_defs)
  qed
qed

lemma passes_snoc: "passes (Cs @ [C]) sv = snd (trySync C (passes Cs sv))"
  by (induction Cs arbitrary: sv) simp_all

lemma passes_flag:
  "hasCompletedSyncSinceStarting (passes Cs sv) =
     (hasCompletedSyncSinceStarting sv \<or>
      (\<exists>k<length Cs. passCompletes (Cs ! k) (passes (take k Cs) sv)))"
proof (induction Cs rule: rev_induct)
  case Nil
  then show ?case by simp
next
  case (snoc C Cs)
  have "(\<exists>k<length (Cs @ [C]). passCompletes ((Cs @ [C]) ! k) (passes (take k (Cs @ [C])) sv)) =
        ((\<exists>k<length Cs. passCompletes (Cs ! k) (passes (take k Cs) sv)) \<or>
         passCompletes C (passes Cs sv))"
    (is "?L = ?R")
  proof
    assume ?L
    then obtain k where k: "k < length (Cs @ [C])"
      "passCompletes ((Cs @ [C]) ! k) (passes (take k (Cs @ [C])) sv)"
      by blast
    show ?R
    proof (cases "k < length Cs")
      case True
      with k show ?thesis by (auto simp: nth_append)
    next
      case False
      with k have "k = length Cs" by simp
      with k show ?thesis by simp
    qed
  next
    assume ?R
    then show ?L
    proof
      assume "\<exists>k<length Cs. passCompletes (Cs ! k) (passes (take k Cs) sv)"
      then obtain k where "k < length Cs" "passCompletes (Cs ! k) (passes (take k Cs) sv)" by blast
      then show ?L by (intro exI[of _ k]) (simp add: nth_append)
    next
      assume "passCompletes C (passes Cs sv)"
      then show ?L by (intro exI[of _ "length Cs"]) simp
    qed
  qed
  with snoc show ?case by (simp add: passes_snoc trySync_flag)
qed

text \<open>
  Claim C7, as amended. The readiness flag is false in a new service, and after any
  number of passes it is true exactly when one of them loaded a configuration and got
  through \<^verbatim>\<open>sync\<close> and the reload without a rejection. What fails inside \<^verbatim>\<open>sync\<close> (a
  fetch, a validation, a phase) is caught there and does not keep the flag false; a pass
  whose configuration does not load, or whose reload rejects, leaves the flag as it was.
\<close>

theorem readiness_flag_set_by_first_completed_pass:
  "\<not> hasCompletedSyncSinceStarting (newService api d) \<and>
   hasCompletedSyncSinceStarting (passes Cs (newService api d)) =
     (\<exists>k<length Cs. passCompletes (Cs ! k) (passes (take k Cs) (newService api d)))"
  using passes_flag[of Cs "newService api d"] by (simp add: newService_def)

text \<open>
  The claim as it was stated fails: the only pass of this run contains a failed fetch,
  which is reported, and the flag is true after it.
\<close>

theorem readiness_flag_after_failed_fetch_counterexample:
  "fst (trySync (ex_collaborators (Some \<lparr>organizers = [ex_orgF]\<rparr>)) (newService ex_api empty_db))
     = [Report (ApiError ''e1'')] \<and>
   hasCompletedSyncSinceStarting
     (snd (trySync (ex_collaborators (Some \<lparr>organizers = [ex_orgF]\<rparr>)) (newService ex_api empty_db)))"
  by code_simp

section \<open>Facts about the sync loop\<close>







section \<open>The consumed flag\<close>

lemma keepsConsumed_refl: "keepsConsumed d d"
  unfolding keepsConsumed_def by (rule exI[of _ "[]"]) simp

lemma keepsConsumed_same: "consumedFlags d' = consumedFlags d \<Longrightarrow> keepsConsumed d d'"
  unfolding keepsConsumed_def by (rule exI[of _ "[]"]) simp

lemma keepsConsumed_trans:
  assumes "keepsConsumed a b" and "keepsConsumed b c"
  shows "keepsConsumed a c"
proof -
  from assms obtain n1 n2 where
    "consumedFlags b = consumedFlags a @ map (\<lambda>p. (p, False)) n1"
    "consumedFlags c = consumedFlags b @ map (\<lambda>p. (p, False)) n2"
    unfolding keepsConsumed_def by auto
  then have "consumedFlags c = consumedFlags a @ map (\<lambda>p. (p, False)) (n1 @ n2)" by simp
  then show ?thesis unfolding keepsConsumed_def by blast
qed

lemma pc_returnT: "preservesConsumed (returnT x)"
  by (simp add: preservesConsumed_def returnT_def keepsConsumed_refl)

lemma pc_throwT: "preservesConsumed (throwT e)"
  by (simp add: preservesConsumed_def throwT_def keepsConsumed_refl)

lemma pc_emit: "preservesConsumed (emit effs)"
  by (simp add: preservesConsumed_def emit_def keepsConsumed_refl)

lemma pc_storeRead: "preservesConsumed (storeRead q)"
  by (simp add: preservesConsumed_def storeRead_def keepsConsumed_refl)

lemma pc_storeWrite:
  assumes "\<And>s s'. w s = Inr s' \<Longrightarrow> keepsConsumed s s'"
  shows "preservesConsumed (storeWrite w opn)"
  unfolding preservesConsumed_def storeWrite_def
  using assms by (auto simp: keepsConsumed_refl split: sum.splits)

lemma pc_bindT:
  assumes "preservesConsumed m" and "\<And>x. preservesConsumed (f x)"
  shows "preservesConsumed (bindT m f)"
  unfolding preservesConsumed_def
proof
  fix s
  obtain r tr s' where m: "m s = (r, tr, s')" by (cases "m s") auto
  from assms(1) m have 1: "keepsConsumed s s'" by (auto simp: preservesConsumed_def dest: spec[of _ s])
  show "keepsConsumed s (snd (snd (bindT m f s)))"
  proof (cases r)
    case (Inl e)
    with m 1 show ?thesis by (simp add: bindT_def)
  next
    case (Inr x)
    obtain r2 tr2 s2 where f: "f x s' = (r2, tr2, s2)" by (cases "f x s'") auto
    from assms(2)[of x] f have "keepsConsumed s' s2"
      by (auto simp: preservesConsumed_def dest: spec[of _ s'])
    with 1 have "keepsConsumed s s2" by (rule keepsConsumed_trans)
    with m Inr f show ?thesis by (simp add: bindT_def)
  qed
qed

lemma pc_catchT:
  assumes "preservesConsumed m" and "\<And>e. preservesConsumed (h e)"
  shows "preservesConsumed (catchT m h)"
  unfolding preservesConsumed_def
proof
  fix s
  obtain r tr s' where m: "m s = (r, tr, s')" by (cases "m s") auto
  from assms(1) m have 1: "keepsConsumed s s'" by (auto simp: preservesConsumed_def dest: spec[of _ s])
  show "keepsConsumed s (snd (snd (catchT m h s)))"
  proof (cases r)
    case (Inr x)
    with m 1 show ?thesis by (simp add: catchT_def)
  next
    case (Inl e)
    obtain r2 tr2 s2 where f: "h e s' = (r2, tr2, s2)" by (cases "h e s'") auto
    from assms(2)[of e] f have "keepsConsumed s' s2"
      by (auto simp: preservesConsumed_def dest: spec[of _ s'])
    with 1 have "keepsConsumed s s2" by (rule keepsConsumed_trans)
    with m Inl f show ?thesis by (simp add: catchT_def)
  qed
qed

lemma pc_forEach:
  assumes "\<And>x. x \<in> set xs \<Longrightarrow> preservesConsumed (f x)"
  shows "preservesConsumed (forEach f xs)"
  using assms
proof (induction xs)
  case Nil
  show ?case by (simp add: preservesConsumed_def keepsConsumed_refl)
next
  case (Cons x xs)
  have ih: "preservesConsumed (forEach f xs)" using Cons by simp
  show ?case unfolding preservesConsumed_def
  proof
    fix s
    obtain r tr s' where m: "f x s = (r, tr, s')" by (cases "f x s") auto
    from Cons.prems[of x] m have 1: "keepsConsumed s s'"
      by (auto simp: preservesConsumed_def dest: spec[of _ s])
    show "keepsConsumed s (snd (snd (forEach f (x # xs) s)))"
    proof (cases r)
      case (Inl e)
      with m 1 show ?thesis by simp
    next
      case (Inr u)
      obtain r2 tr2 s2 where f: "forEach f xs s' = (r2, tr2, s2)" by (cases "forEach f xs s'") auto
      from ih f have "keepsConsumed s' s2" by (auto simp: preservesConsumed_def dest: spec[of _ s'])
      with 1 have "keepsConsumed s s2" by (rule keepsConsumed_trans)
      with m Inr f show ?thesis by simp
    qed
  qed
qed

lemma pc_promiseAll:
  assumes "\<And>x. preservesConsumed (f x)"
  shows "preservesConsumed (promiseAll f xs)"
proof (induction xs)
  case Nil
  show ?case by (simp add: preservesConsumed_def keepsConsumed_refl)
next
  case (Cons x xs)
  show ?case unfolding preservesConsumed_def
  proof
    fix s
    obtain r tr s' where m: "f x s = (r, tr, s')" by (cases "f x s") auto
    from assms[of x] m have 1: "keepsConsumed s s'"
      by (auto simp: preservesConsumed_def dest: spec[of _ s])
    obtain r2 tr2 s2 where f: "promiseAll f xs s' = (r2, tr2, s2)"
      by (cases "promiseAll f xs s'") auto
    from Cons f have "keepsConsumed s' s2" by (auto simp: preservesConsumed_def dest: spec[of _ s'])
    with 1 have "keepsConsumed s s2" by (rule keepsConsumed_trans)
    with m f show "keepsConsumed s (snd (snd (promiseAll f (x # xs) s)))" by simp
  qed
qed

lemma pc_promiseAllSettled:
  assumes "\<And>x. preservesConsumed (f x)"
  shows "preservesConsumed (promiseAllSettled f xs)"
proof (induction xs)
  case Nil
  show ?case by (simp add: preservesConsumed_def keepsConsumed_refl)
next
  case (Cons x xs)
  show ?case unfolding preservesConsumed_def
  proof
    fix s
    obtain r tr s' where m: "f x s = (r, tr, s')" by (cases "f x s") auto
    from assms[of x] m have 1: "keepsConsumed s s'"
      by (auto simp: preservesConsumed_def dest: spec[of _ s])
    obtain r2 tr2 s2 where f: "promiseAllSettled f xs s' = (r2, tr2, s2)"
      by (cases "promiseAllSettled f xs s'") auto
    from Cons f have "keepsConsumed s' s2" by (auto simp: preservesConsumed_def dest: spec[of _ s'])
    with 1 have "keepsConsumed s s2" by (rule keepsConsumed_trans)
    with m f show "keepsConsumed s (snd (snd (promiseAllSettled f (x # xs) s)))" by simp
  qed
qed

lemma modifyWhere_flags:
  assumes "\<And>r. position_id (change r) = position_id r \<and> is_consumed (change r) = is_consumed r"
  shows "map (\<lambda>t. (position_id t, is_consumed t)) (modifyWhere matches change rows) =
         map (\<lambda>t. (position_id t, is_consumed t)) rows"
  using assms by (simp add: modifyWhere_def)

lemma refreshTicket_flags:
  "position_id (refreshTicket t r) = position_id r \<and> is_consumed (refreshTicket t r) = is_consumed r"
  by (simp add: refreshTicket_def)

lemma kc_insertEvent: "spec_insertPretixEventsInfo s a b = Inr s' \<Longrightarrow> keepsConsumed s s'"
  by (auto simp: spec_insertPretixEventsInfo_def consumedFlags_def intro!: keepsConsumed_same)

lemma kc_updateEvent: "spec_updatePretixEventsInfo s a b c = Inr s' \<Longrightarrow> keepsConsumed s s'"
  by (auto simp: spec_updatePretixEventsInfo_def consumedFlags_def intro!: keepsConsumed_same)

lemma kc_insertItem: "spec_insertPretixItemsInfo s a b c = Inr s' \<Longrightarrow> keepsConsumed s s'"
  by (auto simp: spec_insertPretixItemsInfo_def consumedFlags_def intro!: keepsConsumed_same)

lemma kc_updateItem: "spec_updatePretixItemsInfo s a b c = Inr s' \<Longrightarrow> keepsConsumed s s'"
  by (auto simp: spec_updatePretixItemsInfo_def consumedFlags_def intro!: keepsConsumed_same)

lemma kc_deleteItem: "spec_softDeletePretixItemInfo s a = Inr s' \<Longrightarrow> keepsConsumed s s'"
  by (auto simp: spec_softDeletePretixItemInfo_def consumedFlags_def intro!: keepsConsumed_same)

lemma kc_updateTicket: "spec_updateDevconnectPretixTicket s t = Inr s' \<Longrightarrow> keepsConsumed s s'"
  by (auto simp: spec_updateDevconnectPretixTicket_def consumedFlags_def modifyWhere_flags
      refreshTicket_flags intro!: keepsConsumed_same)

lemma kc_deleteTicket: "spec_softDeleteDevconnectPretixTicket s t = Inr s' \<Longrightarrow> keepsConsumed s s'"
  by (auto simp: spec_softDeleteDevconnectPretixTicket_def consumedFlags_def modifyWhere_flags
      intro!: keepsConsumed_same)

lemma kc_insertTicket:
  assumes "spec_insertDevconnectPretixTicket s t = Inr s'" and "\<not> is_consumed t"
  shows "keepsConsumed s s'"
proof (cases "\<exists>r \<in> set (ticket_rows s). position_id r = position_id t")
  case True
  with assms show ?thesis
    by (auto simp: spec_insertDevconnectPretixTicket_def upsertWhere_def consumedFlags_def
        modifyWhere_flags refreshTicket_flags intro!: keepsConsumed_same)
next
  case False
  with assms have "consumedFlags s' = consumedFlags s @ map (\<lambda>p. (p, False)) [position_id t]"
    by (auto simp: spec_insertDevconnectPretixTicket_def upsertWhere_def consumedFlags_def)
  then show ?thesis unfolding keepsConsumed_def by blast
qed

lemma positionsToTickets_not_consumed:
  "t \<in> set (snd (positionsToTickets m ord ps)) \<Longrightarrow> \<not> is_consumed t"
  by (induction ps) (auto simp: Let_def positionTicket_def split: option.splits)

lemma ordersLoop_not_consumed: "t \<in> set (snd (ordersLoop m ords)) \<Longrightarrow> \<not> is_consumed t"
  using positionsToTickets_not_consumed by (induction ords) (auto simp: Let_def split: if_splits)

lemma converted_not_consumed:
  "t \<in> set (snd (ordersToDevconnectTickets orders itemsInfo)) \<Longrightarrow> \<not> is_consumed t"
  unfolding ordersToDevconnectTickets_def by (rule ordersLoop_not_consumed)

lemma pc_write_insertEvent:
  "preservesConsumed (storeWrite (\<lambda>d. insertPretixEventsInfo specStore d a b) opn)"
  by (rule pc_storeWrite) (simp add: specStore_def kc_insertEvent)

lemma pc_write_updateEvent:
  "preservesConsumed (storeWrite (\<lambda>d. updatePretixEventsInfo specStore d a b c) opn)"
  by (rule pc_storeWrite) (simp add: specStore_def kc_updateEvent)

lemma pc_write_insertItem:
  "preservesConsumed (storeWrite (\<lambda>d. insertPretixItemsInfo specStore d a b c) opn)"
  by (rule pc_storeWrite) (simp add: specStore_def kc_insertItem)

lemma pc_write_updateItem:
  "preservesConsumed (storeWrite (\<lambda>d. updatePretixItemsInfo specStore d a b c) opn)"
  by (rule pc_storeWrite) (simp add: specStore_def kc_updateItem)

lemma pc_write_deleteItem:
  "preservesConsumed (storeWrite (\<lambda>d. softDeletePretixItemInfo specStore d a) opn)"
  by (rule pc_storeWrite) (simp add: specStore_def kc_deleteItem)

lemma pc_write_insertTicket:
  "\<not> is_consumed t \<Longrightarrow>
   preservesConsumed (storeWrite (\<lambda>d. insertDevconnectPretixTicket specStore d t) opn)"
  by (rule pc_storeWrite) (simp add: specStore_def kc_insertTicket)

lemma pc_write_updateTicket:
  "preservesConsumed (storeWrite (\<lambda>d. updateDevconnectPretixTicket specStore d t) opn)"
  by (rule pc_storeWrite) (simp add: specStore_def kc_updateTicket)

lemma pc_write_deleteTicket:
  "preservesConsumed (storeWrite (\<lambda>d. softDeleteDevconnectPretixTicket specStore d t) opn)"
  by (rule pc_storeWrite) (simp add: specStore_def kc_deleteTicket)

lemma pc_reportAndReturnFalse: "preservesConsumed (reportAndReturnFalse e)"
  unfolding reportAndReturnFalse_def by (intro pc_bindT pc_emit pc_returnT)

lemma pc_syncEventInfos: "preservesConsumed (syncEventInfos specStore organizer event evInfo)"
  unfolding syncEventInfos_def Let_def
  by (intro pc_catchT pc_bindT pc_storeRead pc_returnT pc_reportAndReturnFalse)
     (simp split: option.splits add: pc_write_insertEvent pc_write_updateEvent)

lemma pc_insertItemInfos: "preservesConsumed (insertItemInfos specStore evInfo xs)"
  unfolding insertItemInfos_def by (intro pc_forEach pc_write_insertItem)

lemma pc_updateItemInfos: "preservesConsumed (updateItemInfos specStore m xs)"
  unfolding updateItemInfos_def
  by (intro pc_forEach) (simp split: option.splits add: pc_throwT pc_write_updateItem)

lemma pc_removeItemInfos: "preservesConsumed (removeItemInfos specStore xs)"
  unfolding removeItemInfos_def by (intro pc_forEach pc_write_deleteItem)

lemma pc_syncItemInfos: "preservesConsumed (syncItemInfos specStore organizer event its)"
  unfolding syncItemInfos_def Let_def
  apply (intro pc_catchT pc_bindT pc_storeRead pc_reportAndReturnFalse)
  subgoal for found
    apply (cases found)
     apply (simp add: pc_throwT)
    apply (simp add: pc_throwT)
    apply (intro impI pc_bindT pc_storeRead pc_insertItemInfos pc_updateItemInfos
        pc_removeItemInfos pc_returnT)
    done
  done

lemma pc_insertTickets:
  "(\<And>t. t \<in> set xs \<Longrightarrow> \<not> is_consumed t) \<Longrightarrow> preservesConsumed (insertTickets specStore xs)"
  unfolding insertTickets_def by (intro pc_forEach pc_write_insertTicket) simp

lemma pc_updateTickets: "preservesConsumed (updateTickets specStore xs)"
  unfolding updateTickets_def by (intro pc_forEach pc_write_updateTicket)

lemma pc_removeTickets: "preservesConsumed (removeTickets specStore xs)"
  unfolding removeTickets_def by (intro pc_forEach pc_write_deleteTicket)

lemma pc_syncTickets: "preservesConsumed (syncTickets specStore organizer event orders)"
  unfolding syncTickets_def Let_def
  apply (intro pc_catchT pc_bindT pc_storeRead pc_reportAndReturnFalse)
  subgoal for found
    apply (cases found)
     apply (simp add: pc_throwT)
    apply simp
    apply (intro pc_bindT pc_storeRead pc_emit pc_insertTickets pc_updateTickets
        pc_removeTickets pc_returnT)
    apply (auto simp: newTicketsOf_def dest: converted_not_consumed)
    done
  done

lemma pc_syncEvent: "preservesConsumed (syncEvent specStore organizer event eventData)"
  unfolding syncEvent_def
  apply (intro pc_catchT pc_bindT pc_syncEventInfos pc_emit)
  subgoal for ok1
    apply (cases ok1)
     apply simp
     apply (intro pc_bindT pc_syncItemInfos)
    subgoal for ok2
      by (cases ok2) (simp_all add: pc_returnT pc_bindT pc_syncTickets)
    apply (simp add: pc_returnT)
    done
  done

lemma pc_syncOrganizer: "preservesConsumed (syncOrganizer specStore api organizer)"
  unfolding syncOrganizer_def Let_def
  apply (intro pc_catchT pc_emit)
  apply (cases "fetchAllEventData api organizer (events organizer)")
   apply (simp add: pc_throwT)
  apply (simp add: pc_throwT)
  apply (intro impI pc_promiseAllSettled)
  apply (simp add: pc_syncEvent split: prod.splits)
  done

lemma pc_sync: "preservesConsumed (sync specStore api pretixConfig)"
  unfolding sync_def
  by (intro pc_catchT pc_emit pc_promiseAll pc_syncOrganizer)

text \<open>
  Claim C6. With the queries as the specification describes them, a pass over all
  organizers leaves the consumed flag of every stored ticket as it was: the stored rows
  keep their order, their position ids and their consumed flags, whatever the pass
  inserts, updates or soft-deletes, and every row that the pass adds is not consumed.
\<close>

theorem sync_never_writes_consumed_flag:
  "\<exists>new. consumedFlags (snd (snd (sync specStore api pretixConfig d))) =
          consumedFlags d @ map (\<lambda>p. (p, False)) new"
  using pc_sync[of api pretixConfig] unfolding preservesConsumed_def keepsConsumed_def by blast

section \<open>Facts about keyed collections and table writes\<close>

lemma newMap_None: "(newMap (map (\<lambda>x. (k x, x)) xs) key = None) = (key \<notin> k ` set xs)"
  by (simp add: newMap_def map_of_eq_None_iff image_image)

lemma newMap_None_iff: "(newMap (map (\<lambda>x. (k x, x)) xs) key = None) = (\<forall>x\<in>set xs. k x \<noteq> key)"
  unfolding newMap_None by (auto simp: image_iff)

lemma newMap_Some:
  "newMap (map (\<lambda>x. (k x, x)) xs) key = Some y \<Longrightarrow> y \<in> set xs \<and> k y = key"
  unfolding newMap_def by (auto dest!: map_of_SomeD)

lemma newMap_unique:
  assumes "distinct (map k xs)" and "y \<in> set xs"
  shows "newMap (map (\<lambda>x. (k x, x)) xs) (k y) = Some y"
proof -
  have "distinct (map fst (rev (map (\<lambda>x. (k x, x)) xs)))"
    using assms(1) by (simp add: rev_map[symmetric] comp_def distinct_rev)
  moreover have "(k y, y) \<in> set (rev (map (\<lambda>x. (k x, x)) xs))" using assms(2) by auto
  ultimately show ?thesis unfolding newMap_def by (rule map_of_is_SomeI)
qed

lemma fold_modifyWhere:
  "fold (\<lambda>a. modifyWhere (m a) (t a)) L rows =
     map (\<lambda>r. fold (\<lambda>a r. if m a r then t a r else r) L r) rows"
  by (induction L arbitrary: rows) (simp_all add: modifyWhere_def comp_def)

lemma fold_cond_miss:
  "(\<And>a. a \<in> set L \<Longrightarrow> \<not> m a r) \<Longrightarrow> fold (\<lambda>a r. if m a r then t a r else r) L r = r"
  by (induction L) simp_all

lemma fold_cond_hit:
  assumes pres: "\<And>b c j. m b (t c j) = m b j"
    and idem: "\<And>j. t a (t a j) = t a j"
  shows "(\<And>b. b \<in> set L \<Longrightarrow> m b r \<Longrightarrow> t b = t a) \<Longrightarrow> \<exists>b \<in> set L. m b r \<Longrightarrow>
         fold (\<lambda>a r. if m a r then t a r else r) L r = t a r"
proof (induction L arbitrary: r)
  case Nil
  then show ?case by simp
next
  case (Cons c L)
  show ?case
  proof (cases "m c r")
    case True
    with Cons.prems(1)[of c] have tc: "t c = t a" by simp
    have same: "\<And>b. b \<in> set L \<Longrightarrow> m b (t a r) \<Longrightarrow> t b = t a"
      using Cons.prems(1) pres by simp
    show ?thesis
    proof (cases "\<exists>b \<in> set L. m b (t a r)")
      case True
      from Cons.IH[OF same True] have "fold (\<lambda>a r. if m a r then t a r else r) L (t a r) = t a (t a r)"
        by simp
      with \<open>m c r\<close> tc idem show ?thesis by simp
    next
      case False
      then have "fold (\<lambda>a r. if m a r then t a r else r) L (t a r) = t a r"
        by (intro fold_cond_miss) auto
      with \<open>m c r\<close> tc show ?thesis by simp
    qed
  next
    case False
    with Cons.prems(2) have ex: "\<exists>b \<in> set L. m b r" by auto
    have same: "\<And>b. b \<in> set L \<Longrightarrow> m b r \<Longrightarrow> t b = t a" using Cons.prems(1) by simp
    from Cons.IH[OF same ex] False show ?thesis by simp
  qed
qed

lemma freshId_bound: "x \<in> set ids \<Longrightarrow> x < freshId ids"
proof -
  have "\<And>acc. x \<in> set ids \<Longrightarrow> x \<le> fold max ids acc"
  proof (induction ids)
    case Nil
    then show ?case by simp
  next
    case (Cons y ys)
    have mono: "\<And>zs (a::nat). a \<le> fold max zs a"
    proof -
      fix zs :: "nat list" and a :: nat
      show "a \<le> fold max zs a"
      proof (induction zs arbitrary: a)
        case Nil
        show ?case by simp
      next
        case (Cons z zs)
        have "a \<le> max z a" by simp
        also have "\<dots> \<le> fold max zs (max z a)" by (rule Cons.IH)
        finally show ?case by simp
      qed
    qed
    show ?case
    proof (cases "x = y")
      case True
      have "y \<le> max y acc" by simp
      also have "\<dots> \<le> fold max ys (max y acc)" by (rule mono)
      finally show ?thesis using True by simp
    next
      case False
      with Cons.prems have "x \<in> set ys" by simp
      from Cons.IH[OF this] show ?thesis by simp
    qed
  qed
  then show "x \<in> set ids \<Longrightarrow> x < freshId ids" by (simp add: freshId_def less_Suc_eq_le)
qed

lemma freshId_fresh: "freshId ids \<notin> set ids"
  using freshId_bound[of "freshId ids" ids] by auto

text \<open>The upsert loop over tickets with distinct position ids.\<close>

lemma fold_upsert_tickets:
  assumes "distinct (map position_id L)"
  shows "fold (\<lambda>t. upsertWhere (\<lambda>r. position_id r = position_id t) (refreshTicket t) t) L rows =
         map (\<lambda>r. fold (\<lambda>t r. if position_id r = position_id t then refreshTicket t r else r) L r) rows @
         filter (\<lambda>t. position_id t \<notin> position_id ` set rows) L"
  using assms
proof (induction L arbitrary: rows)
  case Nil
  then show ?case by simp
next
  case (Cons t L)
  let ?h = "\<lambda>t r. if position_id r = position_id t then refreshTicket t r else r"
  have dL: "distinct (map position_id L)" and tL: "\<And>x. x \<in> set L \<Longrightarrow> position_id x \<noteq> position_id t"
    using Cons.prems by (auto simp: image_iff)
  show ?case
  proof (cases "\<exists>r \<in> set rows. position_id r = position_id t")
    case True
    have "map position_id (modifyWhere (\<lambda>r. position_id r = position_id t) (refreshTicket t) rows)
            = map position_id rows"
      by (induction rows) (simp_all add: modifyWhere_def refreshTicket_def)
    then have pos: "position_id ` set (modifyWhere (\<lambda>r. position_id r = position_id t) (refreshTicket t) rows)
               = position_id ` set rows"
      by (metis set_map)
    from True obtain r0 where "r0 \<in> set rows" "position_id r0 = position_id t" by blast
    then have "position_id t \<in> position_id ` set rows" by (metis imageI)
    with True Cons.IH[OF dL] pos show ?thesis
      by (simp add: upsertWhere_def modifyWhere_def comp_def)
  next
    case False
    then have miss: "\<And>r. r \<in> set rows \<Longrightarrow> ?h t r = r" by auto
    have keep: "fold ?h L t = t"
    proof (rule fold_cond_miss[where m="\<lambda>a r. position_id r = position_id a"])
      fix a assume "a \<in> set L"
      from tL[OF this] show "\<not> position_id t = position_id a" by simp
    qed
    have notin: "position_id t \<notin> position_id ` set rows" using False by auto
    have f: "filter (\<lambda>x. position_id x \<notin> position_id ` set (rows @ [t])) L =
             filter (\<lambda>x. position_id x \<notin> position_id ` set rows) L"
    proof (rule filter_cong[OF refl])
      fix x assume "x \<in> set L"
      from tL[OF this] show "(position_id x \<notin> position_id ` set (rows @ [t])) =
                             (position_id x \<notin> position_id ` set rows)" by simp
    qed
    have m: "map (\<lambda>r. fold ?h L (?h t r)) rows = map (\<lambda>r. fold ?h L r) rows"
      using miss by (intro map_cong) auto
    from False Cons.IH[OF dL, of "rows @ [t]"] keep notin f m show ?thesis
      by (simp add: upsertWhere_def)
  qed
qed

lemma distinct_key_eq:
  "distinct (map k xs) \<Longrightarrow> a \<in> set xs \<Longrightarrow> b \<in> set xs \<Longrightarrow> k a = k b \<Longrightarrow> a = b"
  by (meson distinct_map inj_onD)

lemma refresh_fold_hit:
  assumes "distinct (map position_id L)" and "t \<in> set L" and "position_id r = position_id t"
  shows "fold (\<lambda>t r. if position_id r = position_id t then refreshTicket t r else r) L r
           = refreshTicket t r"
proof (rule fold_cond_hit[where m="\<lambda>b r. position_id r = position_id b" and t=refreshTicket and a=t])
  show "\<And>b c j. (position_id (refreshTicket c j) = position_id b) = (position_id j = position_id b)"
    by (simp add: refreshTicket_def)
  show "\<And>j. refreshTicket t (refreshTicket t j) = refreshTicket t j"
    by (simp add: refreshTicket_def)
  show "\<And>b. b \<in> set L \<Longrightarrow> position_id r = position_id b \<Longrightarrow> refreshTicket b = refreshTicket t"
    using assms distinct_key_eq[of position_id L] by metis
  show "\<exists>b\<in>set L. position_id r = position_id b" using assms by blast
qed

lemma refresh_fold_miss:
  assumes "\<And>t. t \<in> set L \<Longrightarrow> position_id t \<noteq> position_id r"
  shows "fold (\<lambda>t r. if position_id r = position_id t then refreshTicket t r else r) L r = r"
proof (rule fold_cond_miss[where m="\<lambda>b r. position_id r = position_id b"])
  fix a assume "a \<in> set L"
  from assms[OF this] show "\<not> position_id r = position_id a" by simp
qed

lemma delete_fold_hit:
  assumes "d \<in> set L" and "position_id r = position_id d"
  shows "fold (\<lambda>t r. if position_id r = position_id t then r\<lparr>is_deleted := True\<rparr> else r) L r
           = r\<lparr>is_deleted := True\<rparr>"
proof (rule fold_cond_hit[where m="\<lambda>b r. position_id r = position_id b"
        and t="\<lambda>t r. r\<lparr>is_deleted := True\<rparr>" and a=d])
  show "\<And>b c j. (position_id (j\<lparr>is_deleted := True\<rparr>) = position_id b) = (position_id j = position_id b)"
    by simp
  show "\<And>j. j\<lparr>is_deleted := True\<rparr>\<lparr>is_deleted := True\<rparr> = j\<lparr>is_deleted := True\<rparr>" by simp
  show "\<And>b. b \<in> set L \<Longrightarrow> position_id r = position_id b \<Longrightarrow>
          (\<lambda>r. r\<lparr>is_deleted := True\<rparr>) = (\<lambda>r. r\<lparr>is_deleted := True\<rparr>)" by simp
  show "\<exists>b\<in>set L. position_id r = position_id b" using assms by blast
qed

lemma delete_fold_miss:
  assumes "\<And>t. t \<in> set L \<Longrightarrow> position_id t \<noteq> position_id r"
  shows "fold (\<lambda>t r. if position_id r = position_id t then r\<lparr>is_deleted := True\<rparr> else r) L r = r"
proof (rule fold_cond_miss[where m="\<lambda>b r. position_id r = position_id b"])
  fix a assume "a \<in> set L"
  from assms[OF this] show "\<not> position_id r = position_id a" by simp
qed

lemma same_ticket_not_different: "\<not> pretixTicketsDifferent t t"
  by (simp add: pretixTicketsDifferent_def)

lemma refreshed_not_different: "\<not> pretixTicketsDifferent (refreshTicket t r) t"
  by (simp add: pretixTicketsDifferent_def refreshTicket_def)

lemma tickets_settle:
  fixes K0 T :: "DevconnectPretixTicket list"
  assumes dK: "distinct (map position_id K0)"
    and dT: "distinct (map position_id T)"
    and BT: "\<And>t. t \<in> set T \<Longrightarrow> B t \<and> \<not> is_deleted t"
    and Bref: "\<And>t r. B (refreshTicket t r) = B t"
    and E: "E = filter (\<lambda>t. \<not> is_deleted t \<and> B t) K0"
    and N: "N = newTicketsOf (newMap (map (\<lambda>t. (position_id t, t)) E)) T"
    and U: "U = updatedTicketsOf (newMap (map (\<lambda>t. (position_id t, t)) E)) T"
    and D: "D = removedTicketsOf (newMap (map (\<lambda>t. (position_id t, t)) T)) E"
    and K3: "K3 =
      fold (\<lambda>t. modifyWhere (\<lambda>r. position_id r = position_id t) (\<lambda>r. r\<lparr>is_deleted := True\<rparr>)) D
        (fold (\<lambda>t. modifyWhere (\<lambda>r. position_id r = position_id t) (refreshTicket t)) U
          (fold (\<lambda>t. upsertWhere (\<lambda>r. position_id r = position_id t) (refreshTicket t) t) N K0))"
    and E': "E' = filter (\<lambda>t. \<not> is_deleted t \<and> B t) K3"
  shows "(\<forall>t\<in>set T. \<exists>x\<in>set E'. position_id x = position_id t) \<and>
         (\<forall>x\<in>set E'. \<exists>t\<in>set T. position_id t = position_id x \<and> \<not> pretixTicketsDifferent x t)"
proof -
  define h1 where "h1 = (\<lambda>r. fold (\<lambda>t r. if position_id r = position_id t then refreshTicket t r else r) N r)"
  define h2 where "h2 = (\<lambda>r. fold (\<lambda>t r. if position_id r = position_id t then refreshTicket t r else r) U r)"
  define h3 where "h3 = (\<lambda>r::DevconnectPretixTicket. fold (\<lambda>t r. if position_id r = position_id t then r\<lparr>is_deleted := True\<rparr> else r) D r)"
  define fresh where "fresh = filter (\<lambda>t. position_id t \<notin> position_id ` set K0) N"
  have subE: "\<And>x. x \<in> set E \<longleftrightarrow> x \<in> set K0 \<and> \<not> is_deleted x \<and> B x" by (auto simp: E)
  have dE: "distinct (map position_id E)" unfolding E using dK by (rule distinct_map_filter)
  have memN: "\<And>t. t \<in> set N \<longleftrightarrow> t \<in> set T \<and> (\<forall>y\<in>set E. position_id y \<noteq> position_id t)"
    by (simp add: N newTicketsOf_def newMap_None_iff)
  have lookE: "\<And>x. x \<in> set E \<Longrightarrow> newMap (map (\<lambda>t. (position_id t, t)) E) (position_id x) = Some x"
    using dE by (rule newMap_unique)
  have memU_sub: "\<And>t. t \<in> set U \<Longrightarrow> t \<in> set T \<and> (\<exists>y\<in>set E. position_id y = position_id t)"
    by (auto simp: U updatedTicketsOf_def newMap_None_iff)
  have memU_in: "\<And>t x. t \<in> set T \<Longrightarrow> x \<in> set E \<Longrightarrow> position_id x = position_id t \<Longrightarrow>
                  (t \<in> set U) = pretixTicketsDifferent x t"
  proof -
    fix t x assume a: "t \<in> set T" "x \<in> set E" "position_id x = position_id t"
    from lookE[OF a(2)] a(3) have "newMap (map (\<lambda>t. (position_id t, t)) E) (position_id t) = Some x"
      by simp
    with a(1) show "(t \<in> set U) = pretixTicketsDifferent x t"
      by (simp add: U updatedTicketsOf_def)
  qed
  have memD: "\<And>d. d \<in> set D \<longleftrightarrow> d \<in> set E \<and> (\<forall>t\<in>set T. position_id t \<noteq> position_id d)"
    by (auto simp: D removedTicketsOf_def newMap_None_iff)
  have dN: "distinct (map position_id N)" unfolding N newTicketsOf_def using dT
    by (rule distinct_map_filter)
  have dU: "distinct (map position_id U)" unfolding U updatedTicketsOf_def using dT
    by (intro distinct_map_filter)
  have K3eq: "K3 = map (\<lambda>r. h3 (h2 (h1 r))) K0 @ map (\<lambda>r. h3 (h2 r)) fresh"
    unfolding K3 fold_upsert_tickets[OF dN] fold_modifyWhere h1_def h2_def h3_def fresh_def
    by simp
  have uniqT: "\<And>a b. a \<in> set T \<Longrightarrow> b \<in> set T \<Longrightarrow> position_id a = position_id b \<Longrightarrow> a = b"
    using dT distinct_key_eq[of position_id T] by blast
  have uniqK: "\<And>a b. a \<in> set K0 \<Longrightarrow> b \<in> set K0 \<Longrightarrow> position_id a = position_id b \<Longrightarrow> a = b"
    using dK distinct_key_eq[of position_id K0] by blast
  have posR: "\<And>t r. position_id (refreshTicket t r) = position_id r" by (simp add: refreshTicket_def)
  \<comment> \<open>a stored row whose position is among the fetched tickets\<close>
  have hit: "\<not> is_deleted (h3 (h2 (h1 r))) \<and> B (h3 (h2 (h1 r))) \<and>
             position_id (h3 (h2 (h1 r))) = position_id t \<and>
             \<not> pretixTicketsDifferent (h3 (h2 (h1 r))) t"
    if r: "r \<in> set K0" and t: "t \<in> set T" and p: "position_id r = position_id t" for r t
  proof (cases "r \<in> set E")
    case True
    have 1: "h1 r = r" unfolding h1_def
    proof (rule refresh_fold_miss)
      fix n assume "n \<in> set N"
      with memN True show "position_id n \<noteq> position_id r" by metis
    qed
    have 2: "h2 r = (if pretixTicketsDifferent r t then refreshTicket t r else r)"
    proof (cases "pretixTicketsDifferent r t")
      case d: True
      with memU_in[OF t True p] have "t \<in> set U" by simp
      from refresh_fold_hit[OF dU this p] d show ?thesis by (simp add: h2_def)
    next
      case nd: False
      have "h2 r = r" unfolding h2_def
      proof (rule refresh_fold_miss)
        fix u assume u: "u \<in> set U"
        show "position_id u \<noteq> position_id r"
        proof
          assume eq: "position_id u = position_id r"
          from memU_sub[OF u] have "u \<in> set T" by simp
          from uniqT[OF this t] eq p have "u = t" by simp
          with u memU_in[OF t True p] nd show False by simp
        qed
      qed
      with nd show ?thesis by simp
    qed
    have 3: "h3 x = x" if "position_id x = position_id t" for x
      unfolding h3_def
    proof (rule delete_fold_miss)
      fix d assume "d \<in> set D"
      with memD t that show "position_id d \<noteq> position_id x" by metis
    qed
    have fin: "h3 (h2 (h1 r)) = (if pretixTicketsDifferent r t then refreshTicket t r else r)"
      using 1 2 3 p posR by simp
    from True subE have ok: "\<not> is_deleted r" "B r" by simp_all
    show ?thesis
    proof (cases "pretixTicketsDifferent r t")
      case True
      with fin have "h3 (h2 (h1 r)) = refreshTicket t r" by simp
      moreover have "\<not> is_deleted (refreshTicket t r)" using BT[OF t] by (simp add: refreshTicket_def)
      ultimately show ?thesis using Bref BT[OF t] posR p refreshed_not_different by simp
    next
      case False
      with fin have "h3 (h2 (h1 r)) = r" by simp
      with False ok p show ?thesis by simp
    qed
  next
    case False
    have nE: "\<And>y. y \<in> set E \<Longrightarrow> position_id y \<noteq> position_id t"
    proof
      fix y assume y: "y \<in> set E" "position_id y = position_id t"
      with subE have "y \<in> set K0" by simp
      from uniqK[OF this r] y p have "y = r" by simp
      with y False show False by simp
    qed
    with memN t have tN: "t \<in> set N" by simp
    from refresh_fold_hit[OF dN tN p] have 1: "h1 r = refreshTicket t r" by (simp add: h1_def)
    have 2: "h2 (refreshTicket t r) = refreshTicket t r" unfolding h2_def
    proof (rule refresh_fold_miss)
      fix u assume "u \<in> set U"
      from memU_sub[OF this] obtain y where "y \<in> set E" "position_id y = position_id u" by blast
      with nE[of y] show "position_id u \<noteq> position_id (refreshTicket t r)"
        using p posR by simp
    qed
    have 3: "h3 (refreshTicket t r) = refreshTicket t r" unfolding h3_def
    proof (rule delete_fold_miss)
      fix d assume "d \<in> set D"
      with memD have "d \<in> set E" by simp
      from nE[OF this] show "position_id d \<noteq> position_id (refreshTicket t r)"
        using p posR by simp
    qed
    have "\<not> is_deleted (refreshTicket t r)" using BT[OF t] by (simp add: refreshTicket_def)
    with 1 2 3 show ?thesis using Bref BT[OF t] posR p refreshed_not_different by simp
  qed
  \<comment> \<open>a stored row whose position is not among the fetched tickets\<close>
  have miss: "is_deleted (h3 (h2 (h1 r))) \<or> \<not> B (h3 (h2 (h1 r)))"
    if r: "r \<in> set K0" and p: "\<And>t. t \<in> set T \<Longrightarrow> position_id t \<noteq> position_id r" for r
  proof -
    have 1: "h1 r = r" unfolding h1_def
    proof (rule refresh_fold_miss)
      fix n assume "n \<in> set N"
      with memN have "n \<in> set T" by simp
      from p[OF this] show "position_id n \<noteq> position_id r" .
    qed
    have 2: "h2 r = r" unfolding h2_def
    proof (rule refresh_fold_miss)
      fix u assume "u \<in> set U"
      from memU_sub[OF this] have "u \<in> set T" by simp
      from p[OF this] show "position_id u \<noteq> position_id r" .
    qed
    show ?thesis
    proof (cases "r \<in> set E")
      case True
      with memD p have "r \<in> set D" by simp
      from delete_fold_hit[OF this refl] have "h3 r = r\<lparr>is_deleted := True\<rparr>" by (simp add: h3_def)
      with 1 2 show ?thesis by simp
    next
      case False
      have "h3 r = r" unfolding h3_def
      proof (rule delete_fold_miss)
        fix d assume d: "d \<in> set D"
        show "position_id d \<noteq> position_id r"
        proof
          assume eq: "position_id d = position_id r"
          from d memD have dE': "d \<in> set E" by simp
          with subE have "d \<in> set K0" by simp
          from uniqK[OF this r eq] dE' False show False by simp
        qed
      qed
      with 1 2 False r subE show ?thesis by simp
    qed
  qed
  \<comment> \<open>a row that the insert step has added\<close>
  have new: "h3 (h2 t) = t" if t: "t \<in> set fresh" for t
  proof -
    from t have tN: "t \<in> set N" and nK: "\<And>y. y \<in> set K0 \<Longrightarrow> position_id y \<noteq> position_id t"
      by (auto simp: fresh_def image_iff)
    have nE: "\<And>y. y \<in> set E \<Longrightarrow> position_id y \<noteq> position_id t" using nK subE by simp
    have 2: "h2 t = t" unfolding h2_def
    proof (rule refresh_fold_miss)
      fix u assume "u \<in> set U"
      from memU_sub[OF this] obtain y where "y \<in> set E" "position_id y = position_id u" by blast
      with nE[of y] show "position_id u \<noteq> position_id t" by simp
    qed
    have 3: "h3 t = t" unfolding h3_def
    proof (rule delete_fold_miss)
      fix d assume "d \<in> set D"
      with memD have "d \<in> set E" by simp
      from nE[OF this] show "position_id d \<noteq> position_id t" .
    qed
    from 2 3 show ?thesis by simp
  qed
  have memE': "\<And>x. x \<in> set E' \<longleftrightarrow>
      ((\<exists>r \<in> set K0. x = h3 (h2 (h1 r))) \<or> (\<exists>t \<in> set fresh. x = h3 (h2 t))) \<and> \<not> is_deleted x \<and> B x"
    by (auto simp: E' K3eq)
  have part1: "\<exists>x\<in>set E'. position_id x = position_id t" if t: "t \<in> set T" for t
  proof (cases "\<exists>r\<in>set K0. position_id r = position_id t")
    case True
    then obtain r where r: "r \<in> set K0" "position_id r = position_id t" by auto
    from hit[OF r(1) t r(2)] r(1) have "h3 (h2 (h1 r)) \<in> set E'" unfolding memE' by blast
    with hit[OF r(1) t r(2)] show ?thesis by blast
  next
    case False
    then have nK: "\<And>y. y \<in> set K0 \<Longrightarrow> position_id y \<noteq> position_id t" by blast
    then have "\<forall>y\<in>set E. position_id y \<noteq> position_id t" using subE by simp
    with memN t have "t \<in> set N" by simp
    moreover have "position_id t \<notin> position_id ` set K0"
    proof
      assume "position_id t \<in> position_id ` set K0"
      then obtain y where "y \<in> set K0" "position_id t = position_id y" by auto
      with nK[of y] show False by simp
    qed
    ultimately have f: "t \<in> set fresh" by (simp add: fresh_def)
    from new[OF f] f BT[OF t] have "t \<in> set E'" unfolding memE' by force
    then show ?thesis by blast
  qed
  have part2: "\<exists>t\<in>set T. position_id t = position_id x \<and> \<not> pretixTicketsDifferent x t"
    if x: "x \<in> set E'" for x
  proof -
    from x have act: "\<not> is_deleted x" "B x" unfolding memE' by auto
    from x consider (old) r where "r \<in> set K0" "x = h3 (h2 (h1 r))"
      | (fresh) t where "t \<in> set fresh" "x = h3 (h2 t)"
      unfolding memE' by blast
    then show ?thesis
    proof cases
      case old
      show ?thesis
      proof (cases "\<exists>t\<in>set T. position_id t = position_id r")
        case True
        then obtain t where t: "t \<in> set T" "position_id r = position_id t" by auto
        from hit[OF old(1) t] old(2) t(1) show ?thesis by auto
      next
        case False
        then have "\<And>t. t \<in> set T \<Longrightarrow> position_id t \<noteq> position_id r" by blast
        from miss[OF old(1) this] old(2) act show ?thesis by simp
      qed
    next
      case fresh
      from new[OF fresh(1)] fresh(2) have "x = t" by simp
      moreover from fresh(1) memN have "t \<in> set T" by (simp add: fresh_def)
      ultimately show ?thesis using same_ticket_not_different by blast
    qed
  qed
  from part1 part2 show ?thesis by blast
qed

lemma tickets_nothing_to_do:
  assumes dT: "distinct (map position_id T)"
    and cover: "\<forall>t\<in>set T. \<exists>x\<in>set E'. position_id x = position_id t"
    and match: "\<forall>x\<in>set E'. \<exists>t\<in>set T. position_id t = position_id x \<and> \<not> pretixTicketsDifferent x t"
  shows "newTicketsOf (newMap (map (\<lambda>t. (position_id t, t)) E')) T = [] \<and>
         updatedTicketsOf (newMap (map (\<lambda>t. (position_id t, t)) E')) T = [] \<and>
         removedTicketsOf (newMap (map (\<lambda>t. (position_id t, t)) T)) E' = []"
proof -
  have uniqT: "\<And>a b. a \<in> set T \<Longrightarrow> b \<in> set T \<Longrightarrow> position_id a = position_id b \<Longrightarrow> a = b"
    using dT distinct_key_eq[of position_id T] by blast
  have 1: "newTicketsOf (newMap (map (\<lambda>t. (position_id t, t)) E')) T = []"
    unfolding newTicketsOf_def filter_empty_conv newMap_None_iff using cover by blast
  have 2: "updatedTicketsOf (newMap (map (\<lambda>t. (position_id t, t)) E')) T = []"
    unfolding updatedTicketsOf_def filter_empty_conv
  proof
    fix t assume "t \<in> set (filter (\<lambda>t. newMap (map (\<lambda>t. (position_id t, t)) E') (position_id t) \<noteq> None) T)"
    then have t: "t \<in> set T" by simp
    show "\<not> (case newMap (map (\<lambda>t. (position_id t, t)) E') (position_id t) of
               None \<Rightarrow> False | Some oldTicket \<Rightarrow> pretixTicketsDifferent oldTicket t)"
    proof (cases "newMap (map (\<lambda>t. (position_id t, t)) E') (position_id t)")
      case None
      then show ?thesis by simp
    next
      case (Some old)
      from newMap_Some[OF Some] have o: "old \<in> set E'" "position_id old = position_id t" by auto
      from match o(1) obtain t2 where t2: "t2 \<in> set T" "position_id t2 = position_id old"
        "\<not> pretixTicketsDifferent old t2" by blast
      from uniqT[OF t2(1) t] t2(2) o(2) have "t2 = t" by simp
      with t2(3) Some show ?thesis by simp
    qed
  qed
  have 3: "removedTicketsOf (newMap (map (\<lambda>t. (position_id t, t)) T)) E' = []"
    unfolding removedTicketsOf_def filter_empty_conv newMap_None_iff using match by blast
  from 1 2 3 show ?thesis by simp
qed

lemma fold_cond_field:
  assumes "\<And>a r. f (t a r) = f r"
  shows "f (fold (\<lambda>a r. if m a r then t a r else r) L r) = f r"
  using assms by (induction L arbitrary: r) simp_all

lemma map_field_modify:
  "(\<And>r. f (t r) = f r) \<Longrightarrow> map f (modifyWhere m t rows) = map f rows"
  by (induction rows) (simp_all add: modifyWhere_def)

lemma natural_key_in:
  "((k, e) \<in> set (map (\<lambda>r. (item_id r, devconnect_pretix_events_info_id r)) rows)) =
   (\<exists>r\<in>set rows. item_id r = k \<and> devconnect_pretix_events_info_id r = e)"
  by (auto simp: image_iff)

text \<open>The upsert loop over item infos of one event, for items with distinct keys.\<close>

lemma fold_upsert_items:
  fixes key :: "'a \<Rightarrow> string" and nm :: "'a \<Rightarrow> string"
  assumes "distinct (map key L)"
  shows "\<exists>news.
    fold (\<lambda>a rows.
        upsertWhere (\<lambda>i. item_id i = key a \<and> devconnect_pretix_events_info_id i = e)
          (\<lambda>i. i\<lparr>item_name := nm a, ii_is_deleted := False\<rparr>)
          \<lparr> ii_id = freshId (map ii_id rows), item_id = key a,
            devconnect_pretix_events_info_id = e, item_name = nm a, ii_is_deleted = False \<rparr>
          rows) L rows
      = map (\<lambda>r. fold (\<lambda>a r. if item_id r = key a \<and> devconnect_pretix_events_info_id r = e
                              then r\<lparr>item_name := nm a, ii_is_deleted := False\<rparr> else r) L r) rows
        @ news \<and>
    (\<forall>x\<in>set news. devconnect_pretix_events_info_id x = e \<and> \<not> ii_is_deleted x \<and>
        ii_id x \<notin> set (map ii_id rows) \<and>
        (\<exists>a\<in>set L. item_id x = key a \<and> item_name x = nm a)) \<and>
    (\<forall>a\<in>set L. (key a, e) \<notin> set (map (\<lambda>r. (item_id r, devconnect_pretix_events_info_id r)) rows)
        \<longrightarrow> (\<exists>x\<in>set news. item_id x = key a))"
  using assms
proof (induction L arbitrary: rows)
  case Nil
  show ?case by (rule exI[of _ "[]"]) simp
next
  case (Cons a L)
  let ?m = "\<lambda>a (i::PretixItemInfo). item_id i = key a \<and> devconnect_pretix_events_info_id i = e"
  let ?t = "\<lambda>a (i::PretixItemInfo). i\<lparr>item_name := nm a, ii_is_deleted := False\<rparr>"
  let ?h = "\<lambda>a r. if ?m a r then ?t a r else r"
  let ?nk = "\<lambda>r::PretixItemInfo. (item_id r, devconnect_pretix_events_info_id r)"
  let ?up = "\<lambda>a rows. upsertWhere (?m a) (?t a)
              \<lparr> ii_id = freshId (map ii_id rows), item_id = key a,
                devconnect_pretix_events_info_id = e, item_name = nm a, ii_is_deleted = False \<rparr>
              rows"
  have dL: "distinct (map key L)" and aL: "\<And>b. b \<in> set L \<Longrightarrow> key b \<noteq> key a"
    using Cons.prems by (auto simp: image_iff)
  show ?case
  proof (cases "\<exists>r\<in>set rows. ?m a r")
    case True
    define rows' where "rows' = modifyWhere (?m a) (?t a) rows"
    have rows': "rows' = map (?h a) rows" by (simp add: rows'_def modifyWhere_def)
    from Cons.IH[OF dL, of rows'] obtain news where
      1: "fold ?up L rows' = map (\<lambda>r. fold ?h L r) rows' @ news"
      and 2: "\<forall>x\<in>set news. devconnect_pretix_events_info_id x = e \<and> \<not> ii_is_deleted x \<and>
                ii_id x \<notin> set (map ii_id rows') \<and>
                (\<exists>a\<in>set L. item_id x = key a \<and> item_name x = nm a)"
      and 3: "\<forall>a\<in>set L. (key a, e) \<notin> set (map ?nk rows') \<longrightarrow> (\<exists>x\<in>set news. item_id x = key a)"
      by blast
    have ids: "map ii_id rows' = map ii_id rows" unfolding rows'_def
      by (rule map_field_modify) simp
    have keys: "map ?nk rows' = map ?nk rows" unfolding rows'_def
      by (rule map_field_modify) simp
    have up_a: "\<And>n. upsertWhere (?m a) (?t a) n rows = rows'"
      using True by (auto simp: upsertWhere_def rows'_def)
    have step: "fold ?up (a # L) rows = fold ?up L rows'"
      by (simp add: up_a)
    have hit: "(key a, e) \<in> set (map ?nk rows)" using True unfolding natural_key_in by simp
    show ?thesis
    proof (intro exI[of _ news] conjI)
      show "fold ?up (a # L) rows = map (\<lambda>r. fold ?h (a # L) r) rows @ news"
        unfolding step 1 by (simp add: rows' comp_def)
      show "\<forall>x\<in>set news. devconnect_pretix_events_info_id x = e \<and> \<not> ii_is_deleted x \<and>
                ii_id x \<notin> set (map ii_id rows) \<and>
                (\<exists>a\<in>set (a # L). item_id x = key a \<and> item_name x = nm a)"
        using 2 unfolding ids by auto
      show "\<forall>b\<in>set (a # L). (key b, e) \<notin> set (map ?nk rows) \<longrightarrow> (\<exists>x\<in>set news. item_id x = key b)"
        using 3 hit unfolding keys by auto
    qed
  next
    case False
    define n where "n = \<lparr> ii_id = freshId (map ii_id rows), item_id = key a,
                devconnect_pretix_events_info_id = e, item_name = nm a, ii_is_deleted = False \<rparr>"
    define rows' where "rows' = rows @ [n]"
    from Cons.IH[OF dL, of rows'] obtain news where
      1: "fold ?up L rows' = map (\<lambda>r. fold ?h L r) rows' @ news"
      and 2: "\<forall>x\<in>set news. devconnect_pretix_events_info_id x = e \<and> \<not> ii_is_deleted x \<and>
                ii_id x \<notin> set (map ii_id rows') \<and>
                (\<exists>a\<in>set L. item_id x = key a \<and> item_name x = nm a)"
      and 3: "\<forall>a\<in>set L. (key a, e) \<notin> set (map ?nk rows') \<longrightarrow> (\<exists>x\<in>set news. item_id x = key a)"
      by blast
    have keep: "fold ?h L n = n"
    proof (rule fold_cond_miss[where m="?m"])
      fix b assume "b \<in> set L"
      from aL[OF this] show "\<not> ?m b n" by (simp add: n_def)
    qed
    have same: "map (\<lambda>r. fold ?h L (?h a r)) rows = map (\<lambda>r. fold ?h L r) rows"
      using False by (intro map_cong) auto
    have fresh: "ii_id n \<notin> set (map ii_id rows)"
      using freshId_fresh[of "map ii_id rows"] by (simp add: n_def)
    have up_a: "upsertWhere (?m a) (?t a) n rows = rows'"
      using False by (auto simp: upsertWhere_def rows'_def)
    have step: "fold ?up (a # L) rows = fold ?up L rows'"
      by (simp add: up_a[unfolded n_def])
    show ?thesis
    proof (intro exI[of _ "n # news"] conjI)
      show "fold ?up (a # L) rows = map (\<lambda>r. fold ?h (a # L) r) rows @ n # news"
        unfolding step 1 using keep same by (simp add: rows'_def)
      show "\<forall>x\<in>set (n # news). devconnect_pretix_events_info_id x = e \<and> \<not> ii_is_deleted x \<and>
                ii_id x \<notin> set (map ii_id rows) \<and>
                (\<exists>a\<in>set (a # L). item_id x = key a \<and> item_name x = nm a)"
      proof
        fix x assume "x \<in> set (n # news)"
        then consider "x = n" | "x \<in> set news" by auto
        then show "devconnect_pretix_events_info_id x = e \<and> \<not> ii_is_deleted x \<and>
                ii_id x \<notin> set (map ii_id rows) \<and>
                (\<exists>a\<in>set (a # L). item_id x = key a \<and> item_name x = nm a)"
        proof cases
          case 1
          with fresh show ?thesis by (simp add: n_def)
        next
          case 2
          with \<open>\<forall>x\<in>set news. _\<close> show ?thesis by (auto simp: rows'_def)
        qed
      qed
      show "\<forall>b\<in>set (a # L). (key b, e) \<notin> set (map ?nk rows) \<longrightarrow> (\<exists>x\<in>set (n # news). item_id x = key b)"
      proof (intro ballI impI)
        fix b assume b: "b \<in> set (a # L)" and nmb: "(key b, e) \<notin> set (map ?nk rows)"
        show "\<exists>x\<in>set (n # news). item_id x = key b"
        proof (cases "b = a")
          case True
          then show ?thesis by (simp add: n_def)
        next
          case False
          with b have bL: "b \<in> set L" by simp
          from aL[OF bL] nmb have "(key b, e) \<notin> set (map ?nk rows')" by (simp add: rows'_def n_def)
          with 3 bL show ?thesis by auto
        qed
      qed
    qed
  qed
qed

lemma items_settle:
  fixes R0 :: "PretixItemInfo list" and A :: "DevconnectPretixItem list"
  assumes dId: "distinct (map ii_id R0)"
    and dKey: "distinct (map (\<lambda>i. (devconnect_pretix_events_info_id i, item_id i)) R0)"
    and dA: "distinct (map (\<lambda>i. toString (i_id i)) A)"
    and E: "E = filter (\<lambda>i. devconnect_pretix_events_info_id i = e \<and> \<not> ii_is_deleted i) R0"
    and Emap: "Emap = newMap (map (\<lambda>i. (item_id i, i)) E)"
    and N: "N = itemsToInsertOf Emap A"
    and U: "U = itemsToUpdateOf Emap A"
    and D: "D = itemsToRemoveOf (newMap (map (\<lambda>i. (toString (i_id i), i)) A)) E"
    and R3: "R3 =
      fold (\<lambda>x. modifyWhere (\<lambda>i. ii_id i = ii_id x) (\<lambda>i. i\<lparr>ii_is_deleted := True\<rparr>)) D
        (fold (\<lambda>a. modifyWhere
                 (\<lambda>i. case Emap (toString (i_id a)) of None \<Rightarrow> False | Some old \<Rightarrow> ii_id i = ii_id old)
                 (\<lambda>i. i\<lparr>item_name := getI18nString (i_name a), ii_is_deleted := False\<rparr>)) U
          (fold (\<lambda>a rows.
              upsertWhere (\<lambda>i. item_id i = toString (i_id a) \<and> devconnect_pretix_events_info_id i = e)
                (\<lambda>i. i\<lparr>item_name := getI18nString (i_name a), ii_is_deleted := False\<rparr>)
                \<lparr> ii_id = freshId (map ii_id rows), item_id = toString (i_id a),
                  devconnect_pretix_events_info_id = e, item_name = getI18nString (i_name a),
                  ii_is_deleted = False \<rparr>
                rows) N R0))"
    and E': "E' = filter (\<lambda>i. devconnect_pretix_events_info_id i = e \<and> \<not> ii_is_deleted i) R3"
  shows "(\<forall>a\<in>set A. \<exists>x\<in>set E'. item_id x = toString (i_id a)) \<and>
         (\<forall>x\<in>set E'. \<exists>a\<in>set A. toString (i_id a) = item_id x \<and>
                                  item_name x = getI18nString (i_name a))"
proof -
  let ?key = "\<lambda>i::DevconnectPretixItem. toString (i_id i)"
  let ?nm = "\<lambda>i::DevconnectPretixItem. getI18nString (i_name i)"
  let ?ev = devconnect_pretix_events_info_id
  let ?touch = "\<lambda>a (i::PretixItemInfo). i\<lparr>item_name := ?nm a, ii_is_deleted := False\<rparr>"
  let ?m1 = "\<lambda>a (i::PretixItemInfo). item_id i = ?key a \<and> ?ev i = e"
  let ?m2 = "\<lambda>a (i::PretixItemInfo). case Emap (?key a) of None \<Rightarrow> False | Some old \<Rightarrow> ii_id i = ii_id old"
  let ?m3 = "\<lambda>x (i::PretixItemInfo). ii_id i = ii_id x"
  let ?del = "\<lambda>x (i::PretixItemInfo). i\<lparr>ii_is_deleted := True\<rparr>"
  define h1 where "h1 = (\<lambda>r. fold (\<lambda>a r. if ?m1 a r then ?touch a r else r) N r)"
  define h2 where "h2 = (\<lambda>r. fold (\<lambda>a r. if ?m2 a r then ?touch a r else r) U r)"
  define h3 where "h3 = (\<lambda>r. fold (\<lambda>x r. if ?m3 x r then ?del x r else r) D r)"
  have subE: "\<And>x. x \<in> set E \<longleftrightarrow> x \<in> set R0 \<and> ?ev x = e \<and> \<not> ii_is_deleted x" by (auto simp: E)
  have uniqId: "\<And>a b. a \<in> set R0 \<Longrightarrow> b \<in> set R0 \<Longrightarrow> ii_id a = ii_id b \<Longrightarrow> a = b"
    using dId distinct_key_eq[of ii_id R0] by blast
  have uniqKey: "\<And>a b. a \<in> set R0 \<Longrightarrow> b \<in> set R0 \<Longrightarrow> ?ev a = ?ev b \<Longrightarrow> item_id a = item_id b \<Longrightarrow> a = b"
    using dKey distinct_key_eq[of "\<lambda>i. (?ev i, item_id i)" R0] by simp
  have uniqA: "\<And>a b. a \<in> set A \<Longrightarrow> b \<in> set A \<Longrightarrow> ?key a = ?key b \<Longrightarrow> a = b"
    using dA distinct_key_eq[of ?key A] by blast
  have dE: "distinct (map item_id E)"
  proof -
    have "distinct R0" using dId by (simp add: distinct_map)
    then have "distinct E" by (simp add: E)
    moreover have "inj_on item_id (set E)"
    proof (rule inj_onI)
      fix x y assume "x \<in> set E" "y \<in> set E" "item_id x = item_id y"
      with subE uniqKey[of x y] show "x = y" by simp
    qed
    ultimately show ?thesis by (simp add: distinct_map)
  qed
  have lookE: "\<And>x. x \<in> set E \<Longrightarrow> Emap (item_id x) = Some x"
    unfolding Emap using dE by (rule newMap_unique)
  have EmapE: "\<And>k old. Emap k = Some old \<Longrightarrow> old \<in> set E \<and> item_id old = k"
    unfolding Emap by (rule newMap_Some)
  have memN: "\<And>a. a \<in> set N \<longleftrightarrow> a \<in> set A \<and> (\<forall>y\<in>set E. item_id y \<noteq> ?key a)"
    by (simp add: N itemsToInsertOf_def Emap newMap_None_iff)
  have memU_sub: "\<And>a. a \<in> set U \<Longrightarrow> a \<in> set A \<and> (\<exists>old. Emap (?key a) = Some old)"
    by (auto simp: U itemsToUpdateOf_def)
  have memU_in: "(a \<in> set U) = (item_name x \<noteq> ?nm a)"
    if "a \<in> set A" "x \<in> set E" "item_id x = ?key a" for a x
  proof -
    from lookE[OF that(2)] that(3) have "Emap (?key a) = Some x" by simp
    with that(1) show ?thesis by (simp add: U itemsToUpdateOf_def)
  qed
  have memD: "\<And>d. d \<in> set D \<longleftrightarrow> d \<in> set E \<and> (\<forall>a\<in>set A. ?key a \<noteq> item_id d)"
    by (auto simp: D itemsToRemoveOf_def newMap_None_iff)
  have dN: "distinct (map ?key N)" unfolding N itemsToInsertOf_def using dA
    by (rule distinct_map_filter)
  from fold_upsert_items[OF dN, of e ?nm R0] obtain news where
    R1: "fold (\<lambda>a rows.
              upsertWhere (?m1 a) (?touch a)
                \<lparr> ii_id = freshId (map ii_id rows), item_id = ?key a,
                  devconnect_pretix_events_info_id = e, item_name = ?nm a,
                  ii_is_deleted = False \<rparr>
                rows) N R0 = map h1 R0 @ news"
    and newsP: "\<forall>x\<in>set news. ?ev x = e \<and> \<not> ii_is_deleted x \<and> ii_id x \<notin> set (map ii_id R0) \<and>
                  (\<exists>a\<in>set N. item_id x = ?key a \<and> item_name x = ?nm a)"
    and newsC: "\<forall>a\<in>set N. (?key a, e) \<notin> set (map (\<lambda>r. (item_id r, ?ev r)) R0) \<longrightarrow>
                  (\<exists>x\<in>set news. item_id x = ?key a)"
    unfolding h1_def by blast
  have R3eq: "R3 = map (\<lambda>r. h3 (h2 (h1 r))) R0 @ map (\<lambda>r. h3 (h2 r)) news"
    unfolding R3 R1 fold_modifyWhere h2_def h3_def by simp
  have id1: "\<And>r. ii_id (h1 r) = ii_id r" unfolding h1_def by (rule fold_cond_field) simp
  have id2: "\<And>r. ii_id (h2 r) = ii_id r" unfolding h2_def by (rule fold_cond_field) simp
  \<comment> \<open>rows that the update and the removal step do not address\<close>
  have h2_miss: "h2 r = r" if "\<And>old. old \<in> set E \<Longrightarrow> ii_id old \<noteq> ii_id r" for r
    unfolding h2_def
  proof (rule fold_cond_miss[where m="?m2"])
    fix a assume "a \<in> set U"
    from memU_sub[OF this] obtain old where o: "Emap (?key a) = Some old" by blast
    from EmapE[OF o] that[of old] o show "\<not> ?m2 a r" by simp
  qed
  have h3_miss: "h3 r = r" if "\<And>d. d \<in> set D \<Longrightarrow> ii_id d \<noteq> ii_id r" for r
    unfolding h3_def
  proof (rule fold_cond_miss[where m="?m3"])
    fix d assume "d \<in> set D"
    from that[OF this] show "\<not> ?m3 d r" by simp
  qed
  have offE: "ii_id old \<noteq> ii_id r" if "r \<in> set R0" "r \<notin> set E" "old \<in> set E" for r old
  proof
    assume "ii_id old = ii_id r"
    moreover from that(3) subE have "old \<in> set R0" by simp
    ultimately have "old = r" using uniqId that(1) by blast
    with that show False by simp
  qed
  \<comment> \<open>an active row of the event whose item is still active\<close>
  have caseA: "h3 (h2 (h1 r)) = r\<lparr>item_name := ?nm a, ii_is_deleted := False\<rparr>"
    if r: "r \<in> set E" and a: "a \<in> set A" and k: "item_id r = ?key a" for r a
  proof -
    have 1: "h1 r = r" unfolding h1_def
    proof (rule fold_cond_miss[where m="?m1"])
      fix n assume "n \<in> set N"
      with memN r show "\<not> ?m1 n r" by metis
    qed
    have only: "b = a" if b: "b \<in> set U" and mb: "?m2 b r" for b
    proof -
      from memU_sub[OF b] obtain old where o: "Emap (?key b) = Some old" and bA: "b \<in> set A" by blast
      from mb o have "ii_id r = ii_id old" by simp
      moreover from EmapE[OF o] subE have "old \<in> set R0" "item_id old = ?key b" by simp_all
      moreover from r subE have "r \<in> set R0" by simp
      ultimately have "?key b = item_id r" using uniqId[of r old] by simp
      with k uniqA[OF bA a] show "b = a" by simp
    qed
    have 2: "h2 r = r\<lparr>item_name := ?nm a, ii_is_deleted := False\<rparr>"
    proof (cases "item_name r = ?nm a")
      case True
      with memU_in[OF a r k] have aU: "a \<notin> set U" by simp
      have "h2 r = r" unfolding h2_def
      proof (rule fold_cond_miss[where m="?m2"])
        fix b assume b: "b \<in> set U"
        show "\<not> ?m2 b r"
        proof
          assume "?m2 b r"
          from only[OF b this] b aU show False by simp
        qed
      qed
      moreover from r subE True have "r\<lparr>item_name := ?nm a, ii_is_deleted := False\<rparr> = r" by simp
      ultimately show ?thesis by simp
    next
      case False
      with memU_in[OF a r k] have aU: "a \<in> set U" by simp
      from lookE[OF r] k have ma: "?m2 a r" by simp
      show ?thesis unfolding h2_def
      proof (rule fold_cond_hit[where m="?m2" and t="?touch" and a=a])
        show "\<And>b c j. ?m2 b (?touch c j) = ?m2 b j" by (simp split: option.splits)
        show "\<And>j. ?touch a (?touch a j) = ?touch a j" by simp
        show "\<And>b. b \<in> set U \<Longrightarrow> ?m2 b r \<Longrightarrow> ?touch b = ?touch a" using only by blast
        show "\<exists>b\<in>set U. ?m2 b r" using aU ma by blast
      qed
    qed
    have 3: "h3 x = x" if "ii_id x = ii_id r" for x
    proof (rule h3_miss)
      fix d assume d: "d \<in> set D"
      show "ii_id d \<noteq> ii_id x"
      proof
        assume "ii_id d = ii_id x"
        with that have "ii_id d = ii_id r" by simp
        moreover from d memD subE have "d \<in> set R0" by simp
        moreover from r subE have "r \<in> set R0" by simp
        ultimately have "d = r" using uniqId by blast
        with d memD a k show False by metis
      qed
    qed
    from 1 2 3[of "r\<lparr>item_name := ?nm a, ii_is_deleted := False\<rparr>"] show ?thesis by simp
  qed
  \<comment> \<open>an active row of the event whose item is no longer active\<close>
  have caseB: "h3 (h2 (h1 r)) = r\<lparr>ii_is_deleted := True\<rparr>"
    if r: "r \<in> set E" and na: "\<And>a. a \<in> set A \<Longrightarrow> ?key a \<noteq> item_id r" for r
  proof -
    have 1: "h1 r = r" unfolding h1_def
    proof (rule fold_cond_miss[where m="?m1"])
      fix n assume "n \<in> set N"
      with memN have "n \<in> set A" by simp
      from na[OF this] show "\<not> ?m1 n r" by simp
    qed
    have 2: "h2 r = r" unfolding h2_def
    proof (rule fold_cond_miss[where m="?m2"])
      fix b assume b: "b \<in> set U"
      from memU_sub[OF b] obtain old where o: "Emap (?key b) = Some old" and bA: "b \<in> set A" by blast
      show "\<not> ?m2 b r"
      proof
        assume "?m2 b r"
        with o have "ii_id r = ii_id old" by simp
        moreover from EmapE[OF o] subE have "old \<in> set R0" "item_id old = ?key b" by simp_all
        moreover from r subE have "r \<in> set R0" by simp
        ultimately have "?key b = item_id r" using uniqId[of r old] by simp
        with na[OF bA] show False by simp
      qed
    qed
    from r memD na have rD: "r \<in> set D" by simp
    have "h3 r = r\<lparr>ii_is_deleted := True\<rparr>" unfolding h3_def
    proof (rule fold_cond_hit[where m="?m3" and t="?del" and a=r])
      show "\<And>b c j. ?m3 b (?del c j) = ?m3 b j" by simp
      show "\<And>j. ?del r (?del r j) = ?del r j" by simp
      show "\<And>b. b \<in> set D \<Longrightarrow> ?m3 b r \<Longrightarrow> ?del b = ?del r" by simp
      show "\<exists>b\<in>set D. ?m3 b r" using rD by blast
    qed
    with 1 2 show ?thesis by simp
  qed
  \<comment> \<open>a row that is not an active row of the event\<close>
  have caseC: "h3 (h2 (h1 r)) = h1 r" if r: "r \<in> set R0" and nE: "r \<notin> set E" for r
  proof -
    have "h2 (h1 r) = h1 r"
    proof (rule h2_miss)
      fix old assume "old \<in> set E"
      from offE[OF r nE this] show "ii_id old \<noteq> ii_id (h1 r)" by (simp add: id1)
    qed
    moreover have "h3 (h1 r) = h1 r"
    proof (rule h3_miss)
      fix d assume "d \<in> set D"
      with memD have "d \<in> set E" by simp
      from offE[OF r nE this] show "ii_id d \<noteq> ii_id (h1 r)" by (simp add: id1)
    qed
    ultimately show ?thesis by simp
  qed
  have h1_hit: "h1 r = r\<lparr>item_name := ?nm a, ii_is_deleted := False\<rparr>"
    if "a \<in> set N" "item_id r = ?key a" "?ev r = e" for r a
    unfolding h1_def
  proof (rule fold_cond_hit[where m="?m1" and t="?touch" and a=a])
    show "\<And>b c j. ?m1 b (?touch c j) = ?m1 b j" by simp
    show "\<And>j. ?touch a (?touch a j) = ?touch a j" by simp
    show "\<And>b. b \<in> set N \<Longrightarrow> ?m1 b r \<Longrightarrow> ?touch b = ?touch a"
    proof -
      fix b assume b: "b \<in> set N" "?m1 b r"
      from b(1) that(1) memN have "b \<in> set A" "a \<in> set A" by simp_all
      moreover from b(2) that(2) have "?key b = ?key a" by simp
      ultimately have "b = a" by (rule uniqA)
      then show "?touch b = ?touch a" by simp
    qed
    show "\<exists>b\<in>set N. ?m1 b r" using that by blast
  qed
  have h1_miss: "h1 r = r" if "\<And>a. a \<in> set N \<Longrightarrow> \<not> ?m1 a r" for r
    unfolding h1_def using that by (rule fold_cond_miss[where m="?m1"])
  \<comment> \<open>a row that the insert step has added\<close>
  have caseN: "h3 (h2 x) = x" if x: "x \<in> set news" for x
  proof -
    from newsP x have nid: "ii_id x \<notin> set (map ii_id R0)" by blast
    have off: "\<And>old. old \<in> set E \<Longrightarrow> ii_id old \<noteq> ii_id x"
    proof
      fix old assume "old \<in> set E" "ii_id old = ii_id x"
      with subE have "ii_id x \<in> set (map ii_id R0)" by (metis imageI set_map)
      with nid show False by simp
    qed
    have "h2 x = x" by (rule h2_miss) (rule off)
    moreover have "h3 x = x"
    proof (rule h3_miss)
      fix d assume "d \<in> set D"
      with memD have "d \<in> set E" by simp
      from off[OF this] show "ii_id d \<noteq> ii_id x" .
    qed
    ultimately show ?thesis by simp
  qed
  have memE': "\<And>x. x \<in> set E' \<longleftrightarrow>
      ((\<exists>r \<in> set R0. x = h3 (h2 (h1 r))) \<or> (\<exists>n \<in> set news. x = h3 (h2 n))) \<and>
      ?ev x = e \<and> \<not> ii_is_deleted x"
    by (auto simp: E' R3eq)
  have oldE': "h3 (h2 (h1 r)) \<in> set E'"
    if "r \<in> set R0" "?ev (h3 (h2 (h1 r))) = e" "\<not> ii_is_deleted (h3 (h2 (h1 r)))" for r
    using that by (simp add: E' R3eq)
  have newE': "h3 (h2 n) \<in> set E'"
    if "n \<in> set news" "?ev (h3 (h2 n)) = e" "\<not> ii_is_deleted (h3 (h2 n))" for n
    using that by (simp add: E' R3eq)
  have part1: "\<exists>x\<in>set E'. item_id x = ?key a" if a: "a \<in> set A" for a
  proof (cases "\<exists>r\<in>set R0. item_id r = ?key a \<and> ?ev r = e")
    case True
    then obtain r where r: "r \<in> set R0" "item_id r = ?key a" "?ev r = e" by blast
    have "h3 (h2 (h1 r)) = r\<lparr>item_name := ?nm a, ii_is_deleted := False\<rparr>"
    proof (cases "r \<in> set E")
      case True
      from caseA[OF True a r(2)] show ?thesis .
    next
      case False
      have "\<forall>y\<in>set E. item_id y \<noteq> ?key a"
      proof
        fix y assume y: "y \<in> set E"
        show "item_id y \<noteq> ?key a"
        proof
          assume "item_id y = ?key a"
          with y subE r uniqKey[of y r] have "y = r" by simp
          with y False show False by simp
        qed
      qed
      with memN a have "a \<in> set N" by simp
      from h1_hit[OF this r(2) r(3)] caseC[OF r(1) False] show ?thesis by simp
    qed
    then have fin: "h3 (h2 (h1 r)) = r\<lparr>item_name := ?nm a, ii_is_deleted := False\<rparr>" .
    have "h3 (h2 (h1 r)) \<in> set E'" by (rule oldE'[OF r(1)]) (simp_all add: fin r(3))
    moreover have "item_id (h3 (h2 (h1 r))) = ?key a" by (simp add: fin r(2))
    ultimately show ?thesis by blast
  next
    case False
    then have "\<forall>y\<in>set E. item_id y \<noteq> ?key a" using subE by blast
    with memN a have aN: "a \<in> set N" by simp
    from False have "(?key a, e) \<notin> set (map (\<lambda>r. (item_id r, ?ev r)) R0)"
      unfolding natural_key_in by simp
    with newsC aN obtain x where x: "x \<in> set news" "item_id x = ?key a" by blast
    from newsP x(1) have "?ev x = e" "\<not> ii_is_deleted x" by auto
    with newE'[OF x(1)] caseN[OF x(1)] have "x \<in> set E'" by simp
    with x(2) show ?thesis by blast
  qed
  have part2: "\<exists>a\<in>set A. ?key a = item_id x \<and> item_name x = ?nm a" if x: "x \<in> set E'" for x
  proof -
    from x have act: "?ev x = e" "\<not> ii_is_deleted x" unfolding memE' by auto
    from x consider (old) r where "r \<in> set R0" "x = h3 (h2 (h1 r))"
      | (fresh) n where "n \<in> set news" "x = h3 (h2 n)"
      unfolding memE' by blast
    then show ?thesis
    proof cases
      case old
      show ?thesis
      proof (cases "r \<in> set E")
        case True
        show ?thesis
        proof (cases "\<exists>a\<in>set A. ?key a = item_id r")
          case ex: True
          then obtain a where a: "a \<in> set A" "item_id r = ?key a" by metis
          from caseA[OF True a] old(2) a show ?thesis by auto
        next
          case False
          then have "\<And>a. a \<in> set A \<Longrightarrow> ?key a \<noteq> item_id r" by blast
          from caseB[OF True this] old(2) act show ?thesis by simp
        qed
      next
        case False
        from caseC[OF old(1) False] old(2) have xh: "x = h1 r" by simp
        show ?thesis
        proof (cases "\<exists>a\<in>set N. ?m1 a r")
          case True
          then obtain a where a: "a \<in> set N" "item_id r = ?key a" "?ev r = e" by blast
          from h1_hit[OF a] xh a(1) a(2) memN show ?thesis by auto
        next
          case nh: False
          then have "h1 r = r" by (intro h1_miss) blast
          with xh have "x = r" by simp
          with act old(1) subE False show ?thesis by simp
        qed
      qed
    next
      case fresh
      from caseN[OF fresh(1)] fresh(2) have "x = n" by simp
      with newsP fresh(1) memN show ?thesis by metis
    qed
  qed
  from part1 part2 show ?thesis by blast
qed

lemma items_nothing_to_do:
  fixes A :: "DevconnectPretixItem list"
  assumes dA: "distinct (map (\<lambda>i. toString (i_id i)) A)"
    and cover: "\<forall>a\<in>set A. \<exists>x\<in>set E'. item_id x = toString (i_id a)"
    and match: "\<forall>x\<in>set E'. \<exists>a\<in>set A. toString (i_id a) = item_id x \<and>
                                       item_name x = getI18nString (i_name a)"
  shows "itemsToInsertOf (newMap (map (\<lambda>i. (item_id i, i)) E')) A = [] \<and>
         itemsToUpdateOf (newMap (map (\<lambda>i. (item_id i, i)) E')) A = [] \<and>
         itemsToRemoveOf (newMap (map (\<lambda>i. (toString (i_id i), i)) A)) E' = []"
proof -
  have uniqA: "\<And>a b. a \<in> set A \<Longrightarrow> b \<in> set A \<Longrightarrow> toString (i_id a) = toString (i_id b) \<Longrightarrow> a = b"
    using dA distinct_key_eq[of "\<lambda>i. toString (i_id i)" A] by blast
  have 1: "itemsToInsertOf (newMap (map (\<lambda>i. (item_id i, i)) E')) A = []"
    unfolding itemsToInsertOf_def filter_empty_conv newMap_None_iff using cover by blast
  have 2: "itemsToUpdateOf (newMap (map (\<lambda>i. (item_id i, i)) E')) A = []"
    unfolding itemsToUpdateOf_def filter_empty_conv
  proof
    fix a assume "a \<in> set (filter (\<lambda>i. newMap (map (\<lambda>i. (item_id i, i)) E') (toString (i_id i)) \<noteq> None) A)"
    then have a: "a \<in> set A" by simp
    show "\<not> (case newMap (map (\<lambda>i. (item_id i, i)) E') (toString (i_id a)) of
               None \<Rightarrow> False | Some oldItem \<Rightarrow> item_name oldItem \<noteq> getI18nString (i_name a))"
    proof (cases "newMap (map (\<lambda>i. (item_id i, i)) E') (toString (i_id a))")
      case None
      then show ?thesis by simp
    next
      case (Some old)
      from newMap_Some[OF Some] have o: "old \<in> set E'" "item_id old = toString (i_id a)" by auto
      from match o(1) obtain a2 where a2: "a2 \<in> set A" "toString (i_id a2) = item_id old"
        "item_name old = getI18nString (i_name a2)" by blast
      from uniqA[OF a2(1) a] a2(2) o(2) have "a2 = a" by simp
      with a2(3) Some show ?thesis by simp
    qed
  qed
  have 3: "itemsToRemoveOf (newMap (map (\<lambda>i. (toString (i_id i), i)) A)) E' = []"
    unfolding itemsToRemoveOf_def filter_empty_conv newMap_None_iff using match by blast
  from 1 2 3 show ?thesis by simp
qed

section \<open>The phases on the store of the specification\<close>

lemma forEach_steps:
  assumes "\<And>x s. x \<in> set xs \<Longrightarrow> \<exists>tr. f x s = (Inr (), tr, g x s)"
  shows "\<exists>tr. forEach f xs s = (Inr (), tr, fold g xs s)"
  using assms
proof (induction xs arbitrary: s)
  case Nil
  then show ?case by simp
next
  case (Cons x xs)
  from Cons.prems[of x s] obtain tr1 where 1: "f x s = (Inr (), tr1, g x s)" by auto
  from Cons.IH[of "g x s"] Cons.prems obtain tr2 where
    2: "forEach f xs (g x s) = (Inr (), tr2, fold g xs (g x s))" by auto
  from 1 2 show ?case by simp
qed

lemma find_modifyWhere:
  assumes "\<And>x. P (t x) = P x"
  shows "find P (modifyWhere m t rows) = map_option (\<lambda>x. if m x then t x else x) (find P rows)"
  using assms by (induction rows) (simp_all add: modifyWhere_def)

lemma find_append_new: "find P rows = None \<Longrightarrow> P n \<Longrightarrow> find P (rows @ [n]) = Some n"
  by (induction rows) (simp_all split: if_splits)

lemma find_None_no_match: "find P rows = None \<Longrightarrow> \<not> (\<exists>r\<in>set rows. P r)"
  by (simp add: find_None_iff)

lemma modifyWhere_id:
  "(\<And>r. r \<in> set rows \<Longrightarrow> m r \<Longrightarrow> t r = r) \<Longrightarrow> modifyWhere m t rows = rows"
  by (induction rows) (simp_all add: modifyWhere_def)

lemma modifyWhere_twice:
  assumes "\<And>r. t (t r) = t r" and "\<And>r. m (t r) = m r"
  shows "modifyWhere m t (modifyWhere m t rows) = modifyWhere m t rows"
  using assms by (induction rows) (simp_all add: modifyWhere_def)

lemma syncEventInfos_spec:
  "\<exists>w d' r. syncEventInfos specStore organizer event evInfo d = (Inr True, [Write w], d') \<and>
     item_infos d' = item_infos d \<and> ticket_rows d' = ticket_rows d \<and>
     eventInfoSettled (ec_id event) (en (e_name evInfo)) (event_infos d') r"
proof (cases "find (\<lambda>x. pretix_events_config_id x = ec_id event) (event_infos d)")
  case None
  define n where "n = \<lparr> ei_id = freshId (map ei_id (event_infos d)),
           pretix_events_config_id = ec_id event,
           event_name = en (e_name evInfo), ei_is_deleted = False \<rparr>"
  define d' where "d' = d\<lparr>event_infos := event_infos d @ [n]\<rparr>"
  from find_None_no_match[OF None]
  have up: "upsertWhere (\<lambda>e. pretix_events_config_id e = ec_id event)
              (\<lambda>e. e\<lparr>event_name := en (e_name evInfo)\<rparr>) n (event_infos d) = event_infos d @ [n]"
    by (simp add: upsertWhere_def)
  have run: "syncEventInfos specStore organizer event evInfo d =
               (Inr True, [Write (InsertEventInfo (en (e_name evInfo)) (ec_id event))], d')"
    using None up
    by (simp add: syncEventInfos_def io_defs Let_def specStore_def spec_fetchPretixEventInfo_def
        spec_insertPretixEventsInfo_def n_def[symmetric] d'_def)
  have f: "find (\<lambda>x. pretix_events_config_id x = ec_id event) (event_infos d') = Some n"
    unfolding d'_def using find_append_new[OF None, of n] by (simp add: n_def)
  have fresh: "ei_id r \<noteq> ei_id n" if "r \<in> set (event_infos d)" for r
  proof -
    from that have "ei_id r \<in> set (map ei_id (event_infos d))" by simp
    from freshId_bound[OF this] show ?thesis by (simp add: n_def)
  qed
  have "modifyWhere (\<lambda>x. ei_id x = ei_id n)
          (\<lambda>x. x\<lparr>event_name := en (e_name evInfo), ei_is_deleted := False\<rparr>) (event_infos d')
        = event_infos d'"
  proof (rule modifyWhere_id)
    fix r assume "r \<in> set (event_infos d')" "ei_id r = ei_id n"
    with fresh have "r = n" by (auto simp: d'_def)
    then show "r\<lparr>event_name := en (e_name evInfo), ei_is_deleted := False\<rparr> = r" by (simp add: n_def)
  qed
  with f have "eventInfoSettled (ec_id event) (en (e_name evInfo)) (event_infos d') n"
    by (simp add: eventInfoSettled_def)
  with run show ?thesis by (auto simp: d'_def)
next
  case (Some r)
  let ?t = "\<lambda>x::PretixEventInfo. x\<lparr>event_name := en (e_name evInfo), ei_is_deleted := False\<rparr>"
  let ?m = "\<lambda>x::PretixEventInfo. ei_id x = ei_id r"
  define d' where "d' = d\<lparr>event_infos := modifyWhere ?m ?t (event_infos d)\<rparr>"
  have run: "syncEventInfos specStore organizer event evInfo d =
               (Inr True, [Write (UpdateEventInfo (ei_id r) (en (e_name evInfo)) False)], d')"
    using Some
    by (simp add: syncEventInfos_def io_defs Let_def specStore_def spec_fetchPretixEventInfo_def
        spec_updatePretixEventsInfo_def d'_def)
  have f: "find (\<lambda>x. pretix_events_config_id x = ec_id event) (event_infos d') = Some (?t r)"
    unfolding d'_def using Some by (simp add: find_modifyWhere)
  have "modifyWhere (\<lambda>x. ei_id x = ei_id (?t r)) ?t (event_infos d') = event_infos d'"
    unfolding d'_def by (simp add: modifyWhere_twice)
  with f have "eventInfoSettled (ec_id event) (en (e_name evInfo)) (event_infos d') (?t r)"
    by (simp add: eventInfoSettled_def)
  with run show ?thesis by (auto simp: d'_def)
qed

lemma syncEventInfos_spec_again:
  assumes "eventInfoSettled (ec_id event) (en (e_name evInfo)) (event_infos d) r"
  shows "syncEventInfos specStore organizer event evInfo d =
           (Inr True, [Write (UpdateEventInfo (ei_id r) (en (e_name evInfo)) False)], d)"
  using assms
  by (simp add: eventInfoSettled_def syncEventInfos_def io_defs Let_def specStore_def
      spec_fetchPretixEventInfo_def spec_updatePretixEventsInfo_def)

lemma fold_item_infos:
  "fold (\<lambda>x s. s\<lparr>item_infos := h x (item_infos s)\<rparr>) xs d = d\<lparr>item_infos := fold h xs (item_infos d)\<rparr>"
  by (induction xs arbitrary: d) simp_all

lemma fold_ticket_rows:
  "fold (\<lambda>x s. s\<lparr>ticket_rows := h x (ticket_rows s)\<rparr>) xs d = d\<lparr>ticket_rows := fold h xs (ticket_rows d)\<rparr>"
  by (induction xs arbitrary: d) simp_all

lemma insertItemInfos_spec:
  "\<exists>tr. insertItemInfos specStore evInfo xs d =
     (Inr (), tr,
      d\<lparr>item_infos := fold (\<lambda>a rows.
          upsertWhere (\<lambda>i. item_id i = toString (i_id a) \<and> devconnect_pretix_events_info_id i = ei_id evInfo)
            (\<lambda>i. i\<lparr>item_name := getI18nString (i_name a), ii_is_deleted := False\<rparr>)
            \<lparr> ii_id = freshId (map ii_id rows), item_id = toString (i_id a),
              devconnect_pretix_events_info_id = ei_id evInfo, item_name = getI18nString (i_name a),
              ii_is_deleted = False \<rparr>
            rows) xs (item_infos d)\<rparr>)"
  unfolding insertItemInfos_def fold_item_infos[symmetric]
  by (rule forEach_steps)
     (simp add: storeWrite_def specStore_def spec_insertPretixItemsInfo_def)

lemma updateItemInfos_spec:
  assumes "\<And>a. a \<in> set xs \<Longrightarrow> Emap (toString (i_id a)) \<noteq> None"
  shows "\<exists>tr. updateItemInfos specStore Emap xs d =
     (Inr (), tr,
      d\<lparr>item_infos := fold (\<lambda>a. modifyWhere
            (\<lambda>i. case Emap (toString (i_id a)) of None \<Rightarrow> False | Some old \<Rightarrow> ii_id i = ii_id old)
            (\<lambda>i. i\<lparr>item_name := getI18nString (i_name a), ii_is_deleted := False\<rparr>))
          xs (item_infos d)\<rparr>)"
  unfolding updateItemInfos_def fold_item_infos[symmetric]
proof (rule forEach_steps)
  fix a s assume "a \<in> set xs"
  from assms[OF this] obtain old where o: "Emap (toString (i_id a)) = Some old" by auto
  show "\<exists>tr. (case Emap (toString (i_id a)) of
               None \<Rightarrow> throwT (TypeError ''oldItem is undefined'')
             | Some oldItem \<Rightarrow>
                 storeWrite (\<lambda>d. updatePretixItemsInfo specStore d (ii_id oldItem) (getI18nString (i_name a)) False)
                   (UpdateItemInfo (ii_id oldItem) (getI18nString (i_name a)) False)) s =
         (Inr (), tr,
          s\<lparr>item_infos := modifyWhere
              (\<lambda>i. case Emap (toString (i_id a)) of None \<Rightarrow> False | Some old \<Rightarrow> ii_id i = ii_id old)
              (\<lambda>i. i\<lparr>item_name := getI18nString (i_name a), ii_is_deleted := False\<rparr>) (item_infos s)\<rparr>)"
    by (simp add: o storeWrite_def specStore_def spec_updatePretixItemsInfo_def)
qed

lemma removeItemInfos_spec:
  "\<exists>tr. removeItemInfos specStore xs d =
     (Inr (), tr,
      d\<lparr>item_infos := fold (\<lambda>x. modifyWhere (\<lambda>i. ii_id i = ii_id x) (\<lambda>i. i\<lparr>ii_is_deleted := True\<rparr>))
          xs (item_infos d)\<rparr>)"
  unfolding removeItemInfos_def fold_item_infos[symmetric]
  by (rule forEach_steps)
     (simp add: storeWrite_def specStore_def spec_softDeletePretixItemInfo_def)

lemma insertTickets_spec:
  "\<exists>tr. insertTickets specStore xs d =
     (Inr (), tr,
      d\<lparr>ticket_rows := fold (\<lambda>t. upsertWhere (\<lambda>r. position_id r = position_id t) (refreshTicket t) t)
          xs (ticket_rows d)\<rparr>)"
  unfolding insertTickets_def fold_ticket_rows[symmetric]
  by (rule forEach_steps)
     (simp add: storeWrite_def specStore_def spec_insertDevconnectPretixTicket_def)

lemma updateTickets_spec:
  "\<exists>tr. updateTickets specStore xs d =
     (Inr (), tr,
      d\<lparr>ticket_rows := fold (\<lambda>t. modifyWhere (\<lambda>r. position_id r = position_id t) (refreshTicket t))
          xs (ticket_rows d)\<rparr>)"
  unfolding updateTickets_def fold_ticket_rows[symmetric]
  by (rule forEach_steps)
     (simp add: storeWrite_def specStore_def spec_updateDevconnectPretixTicket_def)

lemma removeTickets_spec:
  "\<exists>tr. removeTickets specStore xs d =
     (Inr (), tr,
      d\<lparr>ticket_rows := fold (\<lambda>t. modifyWhere (\<lambda>r. position_id r = position_id t)
                                   (\<lambda>r. r\<lparr>is_deleted := True\<rparr>))
          xs (ticket_rows d)\<rparr>)"
  unfolding removeTickets_def fold_ticket_rows[symmetric]
  by (rule forEach_steps)
     (simp add: storeWrite_def specStore_def spec_softDeleteDevconnectPretixTicket_def)

lemma syncItemInfos_spec:
  assumes found: "find (\<lambda>x. pretix_events_config_id x = ec_id event) (event_infos d) = Some r"
    and nodrift: "\<forall>i\<in>set (activeItemIDs event). i \<in> set (map (\<lambda>i. toString (i_id i)) its)"
  shows "\<exists>tr. syncItemInfos specStore organizer event its d =
     (Inr True, tr,
      d\<lparr>item_infos := itemTableAfter (ei_id r)
          (filter (\<lambda>i. toString (i_id i) \<in> set (activeItemIDs event)) its) (item_infos d)\<rparr>)"
proof -
  define A where "A = filter (\<lambda>i. toString (i_id i) \<in> set (activeItemIDs event)) its"
  define E where "E = filter (\<lambda>i. devconnect_pretix_events_info_id i = ei_id r \<and> \<not> ii_is_deleted i)
                        (item_infos d)"
  define Emap where "Emap = newMap (map (\<lambda>i. (item_id i, i)) E)"
  define Amap where "Amap = newMap (map (\<lambda>i. (toString (i_id i), i)) A)"
  have f1: "fetchPretixEventInfo specStore d (ec_id event) = Inr (Some r)"
    using found by (simp add: specStore_def spec_fetchPretixEventInfo_def)
  have f2: "fetchPretixItemsInfoByEvent specStore d (ei_id r) = Inr E"
    by (simp add: specStore_def spec_fetchPretixItemsInfoByEvent_def E_def)
  from insertItemInfos_spec[of r "itemsToInsertOf Emap A" d] obtain tr1 d1 where
    1: "insertItemInfos specStore r (itemsToInsertOf Emap A) d = (Inr (), tr1, d1)"
    and d1: "d1 = d\<lparr>item_infos := fold (\<lambda>a rows.
          upsertWhere (\<lambda>i. item_id i = toString (i_id a) \<and> devconnect_pretix_events_info_id i = ei_id r)
            (\<lambda>i. i\<lparr>item_name := getI18nString (i_name a), ii_is_deleted := False\<rparr>)
            \<lparr> ii_id = freshId (map ii_id rows), item_id = toString (i_id a),
              devconnect_pretix_events_info_id = ei_id r, item_name = getI18nString (i_name a),
              ii_is_deleted = False \<rparr>
            rows) (itemsToInsertOf Emap A) (item_infos d)\<rparr>"
    by blast
  have some: "\<And>a. a \<in> set (itemsToUpdateOf Emap A) \<Longrightarrow> Emap (toString (i_id a)) \<noteq> None"
    by (simp add: itemsToUpdateOf_def)
  from updateItemInfos_spec[of "itemsToUpdateOf Emap A" Emap d1, OF some] obtain tr2 d2 where
    2: "updateItemInfos specStore Emap (itemsToUpdateOf Emap A) d1 = (Inr (), tr2, d2)"
    and d2: "d2 = d1\<lparr>item_infos := fold (\<lambda>a. modifyWhere
            (\<lambda>i. case Emap (toString (i_id a)) of None \<Rightarrow> False | Some old \<Rightarrow> ii_id i = ii_id old)
            (\<lambda>i. i\<lparr>item_name := getI18nString (i_name a), ii_is_deleted := False\<rparr>))
          (itemsToUpdateOf Emap A) (item_infos d1)\<rparr>"
    by blast
  from removeItemInfos_spec[of "itemsToRemoveOf Amap E" d2] obtain tr3 d3 where
    3: "removeItemInfos specStore (itemsToRemoveOf Amap E) d2 = (Inr (), tr3, d3)"
    and d3: "d3 = d2\<lparr>item_infos := fold (\<lambda>x. modifyWhere (\<lambda>i. ii_id i = ii_id x) (\<lambda>i. i\<lparr>ii_is_deleted := True\<rparr>))
          (itemsToRemoveOf Amap E) (item_infos d2)\<rparr>"
    by blast
  have run: "syncItemInfos specStore organizer event its d = (Inr True, tr1 @ tr2 @ tr3, d3)"
    unfolding syncItemInfos_def
    using nodrift
    by (simp add: io_defs Let_def f1 f2 A_def[symmetric] Emap_def[symmetric] Amap_def[symmetric] 1 2 3)
  have "d3 = d\<lparr>item_infos := itemTableAfter (ei_id r) A (item_infos d)\<rparr>"
    unfolding d3 d2 d1 itemTableAfter_def Let_def E_def[symmetric] Emap_def[symmetric] Amap_def[symmetric]
    by simp
  with run show ?thesis unfolding A_def by blast
qed

lemma syncItemInfos_spec_nothing:
  assumes found: "find (\<lambda>x. pretix_events_config_id x = ec_id event) (event_infos d) = Some r"
    and nodrift: "\<forall>i\<in>set (activeItemIDs event). i \<in> set (map (\<lambda>i. toString (i_id i)) its)"
    and E: "E = filter (\<lambda>i. devconnect_pretix_events_info_id i = ei_id r \<and> \<not> ii_is_deleted i) (item_infos d)"
    and A: "A = filter (\<lambda>i. toString (i_id i) \<in> set (activeItemIDs event)) its"
    and idle: "itemsToInsertOf (newMap (map (\<lambda>i. (item_id i, i)) E)) A = [] \<and>
         itemsToUpdateOf (newMap (map (\<lambda>i. (item_id i, i)) E)) A = [] \<and>
         itemsToRemoveOf (newMap (map (\<lambda>i. (toString (i_id i), i)) A)) E = []"
  shows "syncItemInfos specStore organizer event its d = (Inr True, [], d)"
proof -
  have f1: "fetchPretixEventInfo specStore d (ec_id event) = Inr (Some r)"
    using found by (simp add: specStore_def spec_fetchPretixEventInfo_def)
  have f2: "fetchPretixItemsInfoByEvent specStore d (ei_id r) = Inr E"
    by (simp add: specStore_def spec_fetchPretixItemsInfoByEvent_def E)
  note n1 = idle[THEN conjunct1]
    and n2 = idle[THEN conjunct2, THEN conjunct1]
    and n3 = idle[THEN conjunct2, THEN conjunct2]
  have s1: "insertItemInfos specStore r [] = returnT ()"
    and s2: "\<And>m. updateItemInfos specStore m [] = returnT ()"
    and s3: "removeItemInfos specStore [] = returnT ()"
    by (auto simp: insertItemInfos_def updateItemInfos_def removeItemInfos_def returnT_def)
  show ?thesis
    unfolding syncItemInfos_def
    using nodrift
    by (simp add: Let_def f1 f2 A[symmetric] n1 n2 n3 s1 s2 s3 bindT_def catchT_def returnT_def
        storeRead_def)
qed

lemma syncTickets_spec:
  assumes found: "find (\<lambda>x. pretix_events_config_id x = ec_id event) (event_infos d) = Some r"
  shows "\<exists>tr. syncTickets specStore organizer event orders d =
     (Inr True, tr,
      d\<lparr>ticket_rows := ticketTableAfter (ticketOfEvent d (ec_id event))
          (snd (ordersToDevconnectTickets orders
             (filter (\<lambda>i. devconnect_pretix_events_info_id i = ei_id r \<and> \<not> ii_is_deleted i)
                (item_infos d))))
          (ticket_rows d)\<rparr>)"
proof -
  define I where "I = filter (\<lambda>i. devconnect_pretix_events_info_id i = ei_id r \<and> \<not> ii_is_deleted i)
                        (item_infos d)"
  define T where "T = snd (ordersToDevconnectTickets orders I)"
  define E where "E = filter (\<lambda>t. \<not> is_deleted t \<and> ticketOfEvent d (ec_id event) t) (ticket_rows d)"
  define Emap where "Emap = newMap (map (\<lambda>t. (position_id t, t)) E)"
  define Tmap where "Tmap = newMap (map (\<lambda>t. (position_id t, t)) T)"
  have f1: "fetchPretixEventInfo specStore d (ec_id event) = Inr (Some r)"
    using found by (simp add: specStore_def spec_fetchPretixEventInfo_def)
  have f2: "fetchPretixItemsInfoByEvent specStore d (ei_id r) = Inr I"
    by (simp add: specStore_def spec_fetchPretixItemsInfoByEvent_def I_def)
  have f3: "fetchDevconnectPretixTicketsByEvent specStore d (ec_id event) = Inr E"
    by (simp add: specStore_def spec_fetchDevconnectPretixTicketsByEvent_def E_def)
  from insertTickets_spec[of "newTicketsOf Emap T" d] obtain tr1 d1 where
    1: "insertTickets specStore (newTicketsOf Emap T) d = (Inr (), tr1, d1)"
    and d1: "d1 = d\<lparr>ticket_rows := fold (\<lambda>t. upsertWhere (\<lambda>r. position_id r = position_id t) (refreshTicket t) t)
          (newTicketsOf Emap T) (ticket_rows d)\<rparr>"
    by blast
  from updateTickets_spec[of "updatedTicketsOf Emap T" d1] obtain tr2 d2 where
    2: "updateTickets specStore (updatedTicketsOf Emap T) d1 = (Inr (), tr2, d2)"
    and d2: "d2 = d1\<lparr>ticket_rows := fold (\<lambda>t. modifyWhere (\<lambda>r. position_id r = position_id t) (refreshTicket t))
          (updatedTicketsOf Emap T) (ticket_rows d1)\<rparr>"
    by blast
  from removeTickets_spec[of "removedTicketsOf Tmap E" d2] obtain tr3 d3 where
    3: "removeTickets specStore (removedTicketsOf Tmap E) d2 = (Inr (), tr3, d3)"
    and d3: "d3 = d2\<lparr>ticket_rows := fold (\<lambda>t. modifyWhere (\<lambda>r. position_id r = position_id t)
                                   (\<lambda>r. r\<lparr>is_deleted := True\<rparr>))
          (removedTicketsOf Tmap E) (ticket_rows d2)\<rparr>"
    by blast
  have run: "syncTickets specStore organizer event orders d =
               (Inr True, fst (ordersToDevconnectTickets orders I) @ tr1 @ tr2 @ tr3, d3)"
    unfolding syncTickets_def
    by (simp add: io_defs Let_def f1 f2 f3 T_def[symmetric] Emap_def[symmetric] Tmap_def[symmetric] 1 2 3)
  have "d3 = d\<lparr>ticket_rows := ticketTableAfter (ticketOfEvent d (ec_id event)) T (ticket_rows d)\<rparr>"
    unfolding d3 d2 d1 ticketTableAfter_def Let_def E_def[symmetric] Emap_def[symmetric] Tmap_def[symmetric]
    by simp
  with run show ?thesis unfolding T_def I_def by blast
qed

lemma syncTickets_spec_nothing:
  assumes found: "find (\<lambda>x. pretix_events_config_id x = ec_id event) (event_infos d) = Some r"
    and I: "I = filter (\<lambda>i. devconnect_pretix_events_info_id i = ei_id r \<and> \<not> ii_is_deleted i) (item_infos d)"
    and T: "T = snd (ordersToDevconnectTickets orders I)"
    and E: "E = filter (\<lambda>t. \<not> is_deleted t \<and> ticketOfEvent d (ec_id event) t) (ticket_rows d)"
    and idle: "newTicketsOf (newMap (map (\<lambda>t. (position_id t, t)) E)) T = [] \<and>
         updatedTicketsOf (newMap (map (\<lambda>t. (position_id t, t)) E)) T = [] \<and>
         removedTicketsOf (newMap (map (\<lambda>t. (position_id t, t)) T)) E = []"
  shows "syncTickets specStore organizer event orders d =
           (Inr True, fst (ordersToDevconnectTickets orders I), d)"
proof -
  have f1: "fetchPretixEventInfo specStore d (ec_id event) = Inr (Some r)"
    using found by (simp add: specStore_def spec_fetchPretixEventInfo_def)
  have f2: "fetchPretixItemsInfoByEvent specStore d (ei_id r) = Inr I"
    by (simp add: specStore_def spec_fetchPretixItemsInfoByEvent_def I)
  have f3: "fetchDevconnectPretixTicketsByEvent specStore d (ec_id event) = Inr E"
    by (simp add: specStore_def spec_fetchDevconnectPretixTicketsByEvent_def E)
  note n1 = idle[THEN conjunct1]
    and n2 = idle[THEN conjunct2, THEN conjunct1]
    and n3 = idle[THEN conjunct2, THEN conjunct2]
  have s1: "insertTickets specStore [] = returnT ()"
    and s2: "updateTickets specStore [] = returnT ()"
    and s3: "removeTickets specStore [] = returnT ()"
    by (auto simp: insertTickets_def updateTickets_def removeTickets_def returnT_def)
  show ?thesis
    unfolding syncTickets_def
    by (simp add: Let_def f1 f2 f3 T[symmetric] n1 n2 n3 s1 s2 s3 bindT_def catchT_def returnT_def
        storeRead_def emit_def)
qed

section \<open>Facts about the converted tickets\<close>

lemma positionsToTickets_position_ids:
  "map position_id (snd (positionsToTickets m ord ps)) =
     map (\<lambda>p. toString (p_id p)) (filter (\<lambda>p. m (toString (item p)) \<noteq> None) ps)"
  by (induction ps) (auto simp: Let_def positionTicket_def split: option.splits)

lemma ordersLoop_position_ids:
  "map position_id (snd (ordersLoop m ords)) =
     map (\<lambda>p. toString (p_id p))
       (filter (\<lambda>p. m (toString (item p)) \<noteq> None)
          (concat (map positions (filter (\<lambda>ord. status ord = ''p'') ords))))"
  by (induction ords) (simp_all add: Let_def positionsToTickets_position_ids)

lemma converted_distinct:
  assumes "distinct (map (\<lambda>p. toString (p_id p))
             (concat (map positions (filter (\<lambda>ord. status ord = ''p'') orders))))"
  shows "distinct (map position_id (snd (ordersToDevconnectTickets orders itemsInfo)))"
  unfolding ordersToDevconnectTickets_def ordersLoop_position_ids
  using assms by (rule distinct_map_filter)

lemma positionsToTickets_owner:
  "t \<in> set (snd (positionsToTickets m ord ps)) \<Longrightarrow>
     \<not> is_deleted t \<and> (\<exists>k i. m k = Some i \<and> devconnect_pretix_items_info_id t = ii_id i)"
proof (induction ps)
  case Nil
  then show ?case by simp
next
  case (Cons p ps)
  show ?case
  proof (cases "m (toString (item p))")
    case None
    with Cons show ?thesis by (simp add: Let_def)
  next
    case (Some x)
    from Cons.prems Some have "t = positionTicket ord p x \<or> t \<in> set (snd (positionsToTickets m ord ps))"
      by (simp add: Let_def)
    then show ?thesis
    proof
      assume "t = positionTicket ord p x"
      then have "\<not> is_deleted t" "devconnect_pretix_items_info_id t = ii_id x"
        by (simp_all add: positionTicket_def)
      with Some show ?thesis by blast
    next
      assume "t \<in> set (snd (positionsToTickets m ord ps))"
      then show ?thesis by (rule Cons.IH)
    qed
  qed
qed

lemma ordersLoop_owner:
  "t \<in> set (snd (ordersLoop m ords)) \<Longrightarrow>
     \<not> is_deleted t \<and> (\<exists>k i. m k = Some i \<and> devconnect_pretix_items_info_id t = ii_id i)"
proof (induction ords)
  case Nil
  then show ?case by simp
next
  case (Cons ord ords)
  then show ?case
    using positionsToTickets_owner[of t m ord "positions ord"]
    by (auto simp: Let_def split: if_splits)
qed

lemma converted_owner:
  assumes "t \<in> set (snd (ordersToDevconnectTickets orders itemsInfo))"
  shows "\<not> is_deleted t \<and> (\<exists>i\<in>set itemsInfo. devconnect_pretix_items_info_id t = ii_id i)"
proof -
  from ordersLoop_owner[OF assms[unfolded ordersToDevconnectTickets_def]]
  obtain k i where nd: "\<not> is_deleted t"
    and ki: "newMap (map (\<lambda>i. (item_id i, i)) itemsInfo) k = Some i"
    and own: "devconnect_pretix_items_info_id t = ii_id i"
    by blast
  from newMap_Some[OF ki] have "i \<in> set itemsInfo" by simp
  with nd own show ?thesis by blast
qed

lemma positionsToTickets_no_write: "writes_of (fst (positionsToTickets m ord ps)) = []"
  by (induction ps) (auto simp: Let_def writes_of_def split: option.splits)

lemma ordersLoop_no_write: "writes_of (fst (ordersLoop m ords)) = []"
  using positionsToTickets_no_write
  by (induction ords) (auto simp: Let_def writes_of_def)

lemma converted_no_write: "writes_of (fst (ordersToDevconnectTickets orders itemsInfo)) = []"
  by (simp add: ordersToDevconnectTickets_def ordersLoop_no_write)

lemma ticketOfEvent_refresh:
  "ticketOfEvent d cfg (refreshTicket t r) = ticketOfEvent d cfg t"
  by (simp add: ticketOfEvent_def refreshTicket_def)

lemma ticketOfEvent_ticket_rows:
  "ticketOfEvent (d\<lparr>ticket_rows := x\<rparr>) = ticketOfEvent d"
  by (simp add: ticketOfEvent_def fun_eq_iff)

lemma find_Some_member:
  "find P rows = Some r \<Longrightarrow> r \<in> set rows \<and> P r"
  by (induction rows) (auto split: if_splits)

lemma converted_of_event:
  assumes found: "find (\<lambda>x. pretix_events_config_id x = cfg) (event_infos d) = Some r"
    and t: "t \<in> set (snd (ordersToDevconnectTickets orders
              (filter (\<lambda>i. devconnect_pretix_events_info_id i = ei_id r \<and> \<not> ii_is_deleted i)
                 (item_infos d))))"
  shows "ticketOfEvent d cfg t \<and> \<not> is_deleted t"
proof -
  from converted_owner[OF t] obtain i where nd: "\<not> is_deleted t"
    and i: "i \<in> set (item_infos d)" "devconnect_pretix_events_info_id i = ei_id r"
    and own: "devconnect_pretix_items_info_id t = ii_id i"
    by auto
  from find_Some_member[OF found] have r: "r \<in> set (event_infos d)" "pretix_events_config_id r = cfg"
    by simp_all
  have "ticketOfEvent d cfg t"
    unfolding ticketOfEvent_def
  proof (rule bexI[of _ i])
    show "i \<in> set (item_infos d)" by (rule i(1))
    show "ii_id i = devconnect_pretix_items_info_id t \<and>
          (\<exists>e\<in>set (event_infos d). ei_id e = devconnect_pretix_events_info_id i \<and>
                                    pretix_events_config_id e = cfg)"
      using own i(2) r by auto
  qed
  with nd show ?thesis by simp
qed

section \<open>Two runs of the sync of one event\<close>

lemma syncEvent_again:
  fixes d0 :: pretix_db
  assumes H1: "distinct (map ii_id (item_infos d0))"
    and H2: "distinct (map (\<lambda>i. (devconnect_pretix_events_info_id i, item_id i)) (item_infos d0))"
    and H3: "distinct (map position_id (ticket_rows d0))"
    and H4: "distinct (map (\<lambda>i. toString (i_id i)) (items eventData))"
    and H5: "distinct (map (\<lambda>p. toString (p_id p))
               (concat (map positions (filter (\<lambda>ord. status ord = ''p'') (tickets eventData)))))"
  shows "\<exists>tr1 d1 rowId tr2.
           syncEvent specStore organizer event eventData d0 = (Inr (), tr1, d1) \<and>
           syncEvent specStore organizer event eventData d1 = (Inr (), tr2, d1) \<and>
           writes_of tr2 = [Write (UpdateEventInfo rowId (en (e_name (eventInfo eventData))) False)]"
proof -
  let ?cfg = "ec_id event"
  let ?name = "en (e_name (eventInfo eventData))"
  let ?its = "items eventData"
  let ?ords = "tickets eventData"
  from syncEventInfos_spec[of organizer event "eventInfo eventData" d0]
  obtain w da r where
    p1: "syncEventInfos specStore organizer event (eventInfo eventData) d0 = (Inr True, [Write w], da)"
    and ia: "item_infos da = item_infos d0" and ta: "ticket_rows da = ticket_rows d0"
    and settled: "eventInfoSettled ?cfg ?name (event_infos da) r"
    by blast
  from settled have found: "find (\<lambda>x. pretix_events_config_id x = ?cfg) (event_infos da) = Some r"
    by (simp add: eventInfoSettled_def)
  show ?thesis
  proof (cases "\<exists>i\<in>set (activeItemIDs event). i \<notin> set (map (\<lambda>i. toString (i_id i)) ?its)")
    case True
    have f: "fetchPretixEventInfo specStore da ?cfg = Inr (Some r)"
      using found by (simp add: specStore_def spec_fetchPretixEventInfo_def)
    note p2 = syncItemInfos_drift_found[OF True f, of organizer]
    note q1 = syncEventInfos_spec_again[OF settled, of organizer]
    have run1: "syncEvent specStore organizer event eventData d0 =
        (Inr (), [Write w,
           Report (ActiveItemsMissing (activeItemIDs event) (setToList (map (\<lambda>i. toString (i_id i)) ?its)))],
         da)"
      using p1 p2 by (simp add: syncEvent_def bindT_def catchT_def returnT_def)
    have run2: "syncEvent specStore organizer event eventData da =
        (Inr (), [Write (UpdateEventInfo (ei_id r) ?name False),
           Report (ActiveItemsMissing (activeItemIDs event) (setToList (map (\<lambda>i. toString (i_id i)) ?its)))],
         da)"
      using q1 p2 by (simp add: syncEvent_def bindT_def catchT_def returnT_def)
    have "writes_of [Write (UpdateEventInfo (ei_id r) ?name False),
           Report (ActiveItemsMissing (activeItemIDs event) (setToList (map (\<lambda>i. toString (i_id i)) ?its)))]
          = [Write (UpdateEventInfo (ei_id r) ?name False)]"
      by (simp add: writes_of_def)
    with run1 run2 show ?thesis by blast
  next
    case False
    then have nodrift: "\<forall>i\<in>set (activeItemIDs event). i \<in> set (map (\<lambda>i. toString (i_id i)) ?its)"
      by blast
    define A where "A = filter (\<lambda>i. toString (i_id i) \<in> set (activeItemIDs event)) ?its"
    define db where "db = da\<lparr>item_infos := itemTableAfter (ei_id r) A (item_infos da)\<rparr>"
    from syncItemInfos_spec[OF found nodrift, of organizer] obtain trb where
      p2: "syncItemInfos specStore organizer event ?its da = (Inr True, trb, db)"
      unfolding db_def A_def by blast
    have foundb: "find (\<lambda>x. pretix_events_config_id x = ?cfg) (event_infos db) = Some r"
      using found by (simp add: db_def)
    define I where "I = filter (\<lambda>i. devconnect_pretix_events_info_id i = ei_id r \<and> \<not> ii_is_deleted i)
                          (item_infos db)"
    define T where "T = snd (ordersToDevconnectTickets ?ords I)"
    define dc where "dc = db\<lparr>ticket_rows := ticketTableAfter (ticketOfEvent db ?cfg) T (ticket_rows db)\<rparr>"
    from syncTickets_spec[OF foundb, of organizer ?ords] obtain trc where
      p3: "syncTickets specStore organizer event ?ords db = (Inr True, trc, dc)"
      unfolding dc_def T_def I_def by blast
    have run1: "syncEvent specStore organizer event eventData d0 = (Inr (), [Write w] @ trb @ trc, dc)"
      using p1 p2 p3 by (simp add: syncEvent_def bindT_def catchT_def returnT_def)
    have settledc: "eventInfoSettled ?cfg ?name (event_infos dc) r"
      using settled by (simp add: dc_def db_def)
    note q1 = syncEventInfos_spec_again[OF settledc, of organizer]
    have foundc: "find (\<lambda>x. pretix_events_config_id x = ?cfg) (event_infos dc) = Some r"
      using found by (simp add: dc_def db_def)
    have Ic: "I = filter (\<lambda>i. devconnect_pretix_events_info_id i = ei_id r \<and> \<not> ii_is_deleted i)
                    (item_infos dc)"
      by (simp add: I_def dc_def)
    have dA: "distinct (map (\<lambda>i. toString (i_id i)) A)"
      unfolding A_def using H4 by (rule distinct_map_filter)
    have dId: "distinct (map ii_id (item_infos da))" using H1 by (simp add: ia)
    have dKey: "distinct (map (\<lambda>i. (devconnect_pretix_events_info_id i, item_id i)) (item_infos da))"
      using H2 by (simp add: ia)
    have I_eq: "I = filter (\<lambda>i. devconnect_pretix_events_info_id i = ei_id r \<and> \<not> ii_is_deleted i)
                      (itemTableAfter (ei_id r) A (item_infos da))"
      by (simp add: I_def db_def)
    note st = items_settle[OF dId dKey dA refl refl refl refl refl refl I_eq[unfolded itemTableAfter_def Let_def]]
    note idle_items = items_nothing_to_do[OF dA st[THEN conjunct1] st[THEN conjunct2]]
    have q2: "syncItemInfos specStore organizer event ?its dc = (Inr True, [], dc)"
      using foundc nodrift Ic A_def idle_items by (rule syncItemInfos_spec_nothing)
    define Ec where "Ec = filter (\<lambda>t. \<not> is_deleted t \<and> ticketOfEvent dc ?cfg t) (ticket_rows dc)"
    have dK: "distinct (map position_id (ticket_rows db))" using H3 by (simp add: db_def ta)
    have dT: "distinct (map position_id T)" unfolding T_def using H5 by (rule converted_distinct)
    have BT: "\<And>t. t \<in> set T \<Longrightarrow> ticketOfEvent db ?cfg t \<and> \<not> is_deleted t"
      unfolding T_def I_def using foundb by (rule converted_of_event)
    have Bref: "\<And>t x. ticketOfEvent db ?cfg (refreshTicket t x) = ticketOfEvent db ?cfg t"
      by (rule ticketOfEvent_refresh)
    have Ec_eq: "Ec = filter (\<lambda>t. \<not> is_deleted t \<and> ticketOfEvent db ?cfg t)
                        (ticketTableAfter (ticketOfEvent db ?cfg) T (ticket_rows db))"
      by (simp add: Ec_def dc_def ticketOfEvent_ticket_rows)
    note tt = tickets_settle[OF dK dT BT Bref refl refl refl refl refl
        Ec_eq[unfolded ticketTableAfter_def Let_def]]
    note idle_tickets = tickets_nothing_to_do[OF dT tt[THEN conjunct1] tt[THEN conjunct2]]
    have q3: "syncTickets specStore organizer event ?ords dc =
               (Inr True, fst (ordersToDevconnectTickets ?ords I), dc)"
      using foundc Ic T_def Ec_def idle_tickets by (rule syncTickets_spec_nothing)
    have run2: "syncEvent specStore organizer event eventData dc =
        (Inr (), [Write (UpdateEventInfo (ei_id r) ?name False)] @ fst (ordersToDevconnectTickets ?ords I), dc)"
      using q1 q2 q3 by (simp add: syncEvent_def bindT_def catchT_def returnT_def)
    have "writes_of ([Write (UpdateEventInfo (ei_id r) ?name False)] @ fst (ordersToDevconnectTickets ?ords I))
          = [Write (UpdateEventInfo (ei_id r) ?name False)]"
      using converted_no_write[of ?ords I] by (simp add: writes_of_def)
    with run1 run2 show ?thesis by blast
  qed
qed

section \<open>The decimal numeral is injective\<close>

lemma digit_char_inj:
  assumes "a < 10" and "b < 10" and "digit_char a = digit_char b"
  shows "a = b"
proof -
  have d: "distinct ''0123456789''" by simp
  have l: "length ''0123456789'' = 10" by simp
  from assms show ?thesis
    unfolding digit_char_def using nth_eq_iff_index_eq[OF d, of a b] l by simp
qed

lemma digit_char_not_minus: "n < 10 \<Longrightarrow> digit_char n \<noteq> CHR ''-''"
proof -
  assume "n < 10"
  then have "digit_char n \<in> set ''0123456789''"
    unfolding digit_char_def by (intro nth_mem) simp
  then show ?thesis by auto
qed

lemma digits_small: "n < 10 \<Longrightarrow> digits n = [digit_char n]"
  by (simp add: digits.simps)

lemma digits_large: "\<not> n < 10 \<Longrightarrow> digits n = digits (n div 10) @ [digit_char (n mod 10)]"
  by (subst digits.simps) simp

lemma digits_nonempty: "digits n \<noteq> []"
  by (cases "n < 10") (simp_all add: digits_small digits_large)

lemma digits_last: "last (digits n) = digit_char (n mod 10)"
  by (cases "n < 10") (simp_all add: digits_small digits_large)

lemma digits_butlast: "butlast (digits n) = (if n < 10 then [] else digits (n div 10))"
  by (cases "n < 10") (simp_all add: digits_small digits_large)

lemma digits_inj: "digits n = digits m \<Longrightarrow> n = m"
proof (induction n arbitrary: m rule: less_induct)
  case (less n)
  from less.prems have "last (digits n) = last (digits m)" by simp
  then have "digit_char (n mod 10) = digit_char (m mod 10)" by (simp add: digits_last)
  then have md: "n mod 10 = m mod 10" by (intro digit_char_inj) simp_all
  from less.prems have bl: "butlast (digits n) = butlast (digits m)" by simp
  show ?case
  proof (cases "n < 10")
    case True
    with bl have "m < 10" using digits_nonempty[of "m div 10"] by (auto simp: digits_butlast split: if_splits)
    with True md show ?thesis by simp
  next
    case False
    with bl have m10: "\<not> m < 10" using digits_nonempty[of "n div 10"] by (auto simp: digits_butlast split: if_splits)
    with False bl have "digits (n div 10) = digits (m div 10)" by (simp add: digits_butlast)
    moreover from False have "n div 10 < n" by simp
    ultimately have "n div 10 = m div 10" by (rule less.IH[rotated])
    with md show ?thesis by (metis div_mult_mod_eq)
  qed
qed

lemma digits_hd_not_minus: "hd (digits n) \<noteq> CHR ''-''"
proof (induction n rule: less_induct)
  case (less n)
  show ?case
  proof (cases "n < 10")
    case True
    then show ?thesis by (simp add: digits_small digit_char_not_minus)
  next
    case False
    then have "n div 10 < n" by simp
    from less.IH[OF this] False show ?thesis
      by (simp add: digits_large digits_nonempty)
  qed
qed

lemma toString_inj: "toString i = toString j \<Longrightarrow> i = j"
proof -
  assume eq: "toString i = toString j"
  have neg: "False" if "a < 0" "\<not> b < 0" "toString a = toString b" for a b
  proof -
    from that have "CHR ''-'' # digits (nat (- a)) = digits (nat b)" by (simp add: toString_def)
    then have "hd (digits (nat b)) = CHR ''-''" by (metis list.sel(1))
    with digits_hd_not_minus show False by blast
  qed
  show ?thesis
  proof (cases "i < 0")
    case True
    show ?thesis
    proof (cases "j < 0")
      case j: True
      with True eq have "digits (nat (- i)) = digits (nat (- j))" by (simp add: toString_def)
      then have "nat (- i) = nat (- j)" by (rule digits_inj)
      with True j show ?thesis by simp
    next
      case False
      with True eq neg[of i j] show ?thesis by simp
    qed
  next
    case False
    show ?thesis
    proof (cases "j < 0")
      case True
      with False eq neg[of j i] show ?thesis by simp
    next
      case j: False
      with False eq have "digits (nat i) = digits (nat j)" by (simp add: toString_def)
      then have "nat i = nat j" by (rule digits_inj)
      with False j show ?thesis by simp
    qed
  qed
qed

lemma distinct_toString:
  "distinct (map (\<lambda>x. toString (k x)) xs) = distinct (map k xs)"
proof -
  have "inj_on toString (set (map k xs))" by (rule inj_onI) (rule toString_inj)
  then have "distinct (map toString (map k xs)) = distinct (map k xs)"
    by (simp only: distinct_map) simp
  then show ?thesis by (simp add: comp_def)
qed

section \<open>Running the sync of an event twice\<close>

text \<open>
  Claim C2, as amended. On the store of the specification, when the row ids, the natural
  keys of the item infos and the position ids of the stored tickets are unique and the
  fetched items and the positions of the paid orders have distinct ids, a second run of
  \<^verbatim>\<open>syncEvent\<close> right after the first, on the same fetched data, resolves, leaves the store
  exactly as the first run left it and inserts, updates or soft-deletes no item info and
  no ticket. Its only write is the update of the event info, which \<^verbatim>\<open>syncEventInfos\<close> issues
  whenever the row exists, with the name that is already stored.
\<close>

theorem second_sync_only_rewrites_event_name:
  fixes d0 :: pretix_db
  assumes "distinct (map ii_id (item_infos d0))"
    and "distinct (map (\<lambda>i. (devconnect_pretix_events_info_id i, item_id i)) (item_infos d0))"
    and "distinct (map position_id (ticket_rows d0))"
    and "distinct (map i_id (items eventData))"
    and "distinct (map p_id (concat (map positions
           (filter (\<lambda>ord. status ord = ''p'') (tickets eventData)))))"
    and "d1 = snd (snd (syncEvent specStore organizer event eventData d0))"
  shows "\<exists>rowId.
           fst (syncEvent specStore organizer event eventData d1) = Inr () \<and>
           writes_of (fst (snd (syncEvent specStore organizer event eventData d1))) =
             [Write (UpdateEventInfo rowId (en (e_name (eventInfo eventData))) False)] \<and>
           snd (snd (syncEvent specStore organizer event eventData d1)) = d1"
proof -
  have H4: "distinct (map (\<lambda>i. toString (i_id i)) (items eventData))"
    using assms(4) by (simp only: distinct_toString)
  have H5: "distinct (map (\<lambda>p. toString (p_id p))
              (concat (map positions (filter (\<lambda>ord. status ord = ''p'') (tickets eventData)))))"
    using assms(5) by (simp only: distinct_toString)
  from syncEvent_again[OF assms(1) assms(2) assms(3) H4 H5, of organizer event]
  obtain tr1 d' rowId tr2 where
    1: "syncEvent specStore organizer event eventData d0 = (Inr (), tr1, d')"
    and 2: "syncEvent specStore organizer event eventData d' = (Inr (), tr2, d')"
    and 3: "writes_of tr2 = [Write (UpdateEventInfo rowId (en (e_name (eventInfo eventData))) False)]"
    by blast
  from 1 assms(6) have "d1 = d'" by simp
  with 2 3 show ?thesis by simp
qed

theorem second_sync_only_rewrites_event_name_witness:
  "distinct (map ii_id (item_infos ex_db2)) \<and>
   distinct (map (\<lambda>i. (devconnect_pretix_events_info_id i, item_id i)) (item_infos ex_db2)) \<and>
   distinct (map position_id (ticket_rows ex_db2)) \<and>
   distinct (map i_id (items ex_data)) \<and>
   distinct (map p_id (concat (map positions (filter (\<lambda>ord. status ord = ''p'') (tickets ex_data))))) \<and>
   length (writes_of (fst (snd (syncEvent specStore ex_orgB ex_ev2 ex_data ex_db2)))) = 6 \<and>
   (\<exists>rowId.
      fst (syncEvent specStore ex_orgB ex_ev2 ex_data
             (snd (snd (syncEvent specStore ex_orgB ex_ev2 ex_data ex_db2)))) = Inr () \<and>
      writes_of (fst (snd (syncEvent specStore ex_orgB ex_ev2 ex_data
             (snd (snd (syncEvent specStore ex_orgB ex_ev2 ex_data ex_db2)))))) =
        [Write (UpdateEventInfo rowId (en (e_name (eventInfo ex_data))) False)] \<and>
      snd (snd (syncEvent specStore ex_orgB ex_ev2 ex_data
             (snd (snd (syncEvent specStore ex_orgB ex_ev2 ex_data ex_db2))))) =
        snd (snd (syncEvent specStore ex_orgB ex_ev2 ex_data ex_db2)))"
proof -
  have h1: "distinct (map ii_id (item_infos ex_db2))" by code_simp
  have h2: "distinct (map (\<lambda>i. (devconnect_pretix_events_info_id i, item_id i)) (item_infos ex_db2))"
    by code_simp
  have h3: "distinct (map position_id (ticket_rows ex_db2))" by code_simp
  have h4: "distinct (map i_id (items ex_data))" by code_simp
  have h5: "distinct (map p_id (concat (map positions
              (filter (\<lambda>ord. status ord = ''p'') (tickets ex_data)))))"
    by code_simp
  have n: "length (writes_of (fst (snd (syncEvent specStore ex_orgB ex_ev2 ex_data ex_db2)))) = 6"
    by code_simp
  note th = second_sync_only_rewrites_event_name[OF h1 h2 h3 h4 h5 refl, of ex_orgB ex_ev2]
  from h1 h2 h3 h4 h5 n th show ?thesis by (intro conjI)
qed

text \<open>
  The claim as it was stated fails in the event-info phase: after a first run on the empty
  store, the second run on the same data issues one update of the event info.
\<close>

theorem second_sync_writes_event_info_counterexample:
  "writes_of (fst (snd (syncEvent specStore ex_orgB ex_ev2 ex_data empty_db))) =
     [Write (InsertEventInfo ''Event'' ''c2''), Write (InsertItemInfo ''7'' 1 ''General''),
      Write (InsertTicket \<lparr> email = ''a@x.com'', full_name = Some ''Ada'',
                            devconnect_pretix_items_info_id = 1, is_deleted = False,
                            is_consumed = False, position_id = ''1001'', secret = ''s1'' \<rparr>),
      Write (InsertTicket \<lparr> email = ''buyer@x.com'', full_name = None,
                            devconnect_pretix_items_info_id = 1, is_deleted = False,
                            is_consumed = False, position_id = ''1002'', secret = ''s2'' \<rparr>)] \<and>
   writes_of (fst (snd (syncEvent specStore ex_orgB ex_ev2 ex_data
                (snd (snd (syncEvent specStore ex_orgB ex_ev2 ex_data empty_db)))))) =
     [Write (UpdateEventInfo 1 ''Event'' False)]"
  by code_simp

end
